theory Spec2Isabelle
  imports Complex_Main "HOL-Library.Word"
begin

section \<open>Pixels, bitmaps and the canvas\<close>

text \<open>
  The front end paints on an HTML canvas and reads it back as \<^verbatim>\<open>ImageData\<close>, a flat
  \<^verbatim>\<open>Uint8ClampedArray\<close> of R, G, B, A bytes in row-major order. A byte is an 8-bit word;
  JavaScript arithmetic on the bytes it reads is arithmetic on numbers, so the model
  compares and multiplies their \<open>unat\<close> values and never the words themselves.
  JavaScript numbers (pointer coordinates, radii, alpha) are idealised as reals.
\<close>

type_synonym byte = "8 word"

datatype rgba = RGBA (red: byte) (green: byte) (blue: byte) (alpha: byte)

text \<open>A decoded source image: its natural size and its pixels.\<close>

record image =
  iwidth :: nat
  iheight :: nat
  ipixel :: "nat \<Rightarrow> nat \<Rightarrow> rgba"

text \<open>
  The canvas element: its bitmap dimensions and the colour of pixel \<open>(i, j)\<close>, column \<open>i\<close> and
  row \<open>j\<close>. Only pixels with \<open>i < width\<close> and \<open>j < height\<close> belong to the bitmap.
\<close>

record canvas =
  width :: nat
  height :: nat
  pixel :: "nat \<Rightarrow> nat \<Rightarrow> rgba"

text \<open>What \<^verbatim>\<open>canvasToMask\<close> resolves to: the mask bitmap that the PNG file encodes without loss.\<close>

record imagedata =
  dwidth :: nat
  dheight :: nat
  data :: "byte list"

text \<open>What the extractor can throw: an \<^verbatim>\<open>Error\<close> of the page's own, by its message, or the
  IndexSizeError that \<^verbatim>\<open>getImageData\<close> raises when it is asked for a rectangle of the given
  width and height, one of them zero. The text of that exception is the browser's.\<close>

datatype exn = Error string | IndexSizeError nat nat

text \<open>A canvas element as the browser creates it: 300 by 150, transparent black.\<close>

definition transparent :: rgba where
  "transparent = RGBA 0 0 0 0"

definition default_canvas :: canvas where
  "default_canvas = \<lparr>width = 300, height = 150, pixel = (\<lambda>i j. transparent)\<rparr>"

subsection \<open>Reading the canvas: getImageData and createImageData\<close>

definition channel :: "nat \<Rightarrow> rgba \<Rightarrow> byte" where
  "channel k p = (if k = 0 then red p else if k = 1 then green p else if k = 2 then blue p else alpha p)"

text \<open>\<^verbatim>\<open>getImageData(0, 0, canvas.width, canvas.height).data\<close>: byte \<open>n\<close> is channel \<open>n mod 4\<close> of
  pixel number \<open>n div 4\<close> in row-major order.\<close>

definition getImageData :: "canvas \<Rightarrow> byte list" where
  "getImageData c =
     map (\<lambda>n. channel (n mod 4) (pixel c ((n div 4) mod width c) ((n div 4) div width c)))
       [0 ..< 4 * width c * height c]"

text \<open>\<^verbatim>\<open>createImageData(w, h).data\<close>: transparent black, four zero bytes a pixel.\<close>

definition createImageData :: "nat \<Rightarrow> nat \<Rightarrow> byte list" where
  "createImageData w h = replicate (4 * w * h) 0"

text \<open>Reading a typed array: an index past the end reads \<^verbatim>\<open>undefined\<close>, here \<open>None\<close>.\<close>

definition read_byte :: "byte list \<Rightarrow> nat \<Rightarrow> byte option" where
  "read_byte d i = (if i < length d then Some (d ! i) else None)"

section \<open>The mask extractor\<close>

text \<open>
  \<^verbatim>\<open>const isRed = r > 150 && r > g * 2 && r > b * 2\<close>. A comparison with \<^verbatim>\<open>undefined\<close> (or with
  \<^verbatim>\<open>undefined * 2\<close>, which is NaN) is false.
\<close>

definition isRed :: "byte option \<Rightarrow> byte option \<Rightarrow> byte option \<Rightarrow> bool" where
  "isRed r g b =
     (case (r, g, b) of
        (Some r', Some g', Some b') \<Rightarrow>
          unat r' > 150 \<and> unat r' > unat g' * 2 \<and> unat r' > unat b' * 2
      | _ \<Rightarrow> False)"

text \<open>
  First pass, \<^verbatim>\<open>for (let i = 0; i < maskImageData.data.length; i += 4)\<close>: every pixel opaque
  black. A write past the end of a typed array is ignored, as \<open>list_update\<close> ignores it.
\<close>

function fill_black :: "nat \<Rightarrow> byte list \<Rightarrow> byte list" where
  "fill_black i d =
     (if i < length d
      then fill_black (i + 4) (d[i := 0, i + 1 := 0, i + 2 := 0, i + 3 := 255])
      else d)"
  by pat_completeness auto
termination
  by (relation "measure (\<lambda>(i, d). length d - i)") auto

declare fill_black.simps [simp del]

text \<open>Second pass, \<^verbatim>\<open>for (let i = 0; i < imageData.data.length; i += 4)\<close>: a pixel that passes
  the red test becomes opaque white in the mask.\<close>

function detect_red :: "nat \<Rightarrow> byte list \<Rightarrow> byte list \<Rightarrow> byte list" where
  "detect_red i src m =
     (if i < length src
      then detect_red (i + 4) src
             (if isRed (read_byte src i) (read_byte src (i + 1)) (read_byte src (i + 2))
              then m[i := 255, i + 1 := 255, i + 2 := 255, i + 3 := 255]
              else m)
      else m)"
  by pat_completeness auto
termination
  by (relation "measure (\<lambda>(i, src, m). length src - i)") auto

declare detect_red.simps [simp del]

text \<open>The extractor on a canvas element. \<^verbatim>\<open>getImageData(0, 0, canvas.width, canvas.height)\<close>
  throws an IndexSizeError when a dimension is zero; the promise then rejects.\<close>

definition extract_mask :: "canvas \<Rightarrow> exn + imagedata" where
  "extract_mask c =
     (if width c = 0 \<or> height c = 0 then Inl (IndexSizeError (width c) (height c))
      else Inr \<lparr>dwidth = width c, dheight = height c,
                data = detect_red 0 (getImageData c)
                         (fill_black 0 (createImageData (width c) (height c)))\<rparr>)"

text \<open>Pixel \<open>(i, j)\<close> of a mask bitmap, from its four bytes.\<close>

definition mask_pixel :: "imagedata \<Rightarrow> nat \<Rightarrow> nat \<Rightarrow> rgba" where
  "mask_pixel m i j =
     (let n = 4 * (j * dwidth m + i)
      in RGBA (data m ! n) (data m ! (n + 1)) (data m ! (n + 2)) (data m ! (n + 3)))"

definition white :: rgba where
  "white = RGBA 255 255 255 255"

definition black :: rgba where
  "black = RGBA 0 0 0 255"

text \<open>The red test on the pixel that byte \<open>n\<close> belongs to.\<close>

definition red_at :: "byte list \<Rightarrow> nat \<Rightarrow> bool" where
  "red_at src n = isRed (read_byte src (4 * (n div 4))) (read_byte src (4 * (n div 4) + 1))
                    (read_byte src (4 * (n div 4) + 2))"

text \<open>The red test on a whole pixel, as the second pass applies it to the pixel's bytes.\<close>

definition marked :: "rgba \<Rightarrow> bool" where
  "marked p = isRed (Some (red p)) (Some (green p)) (Some (blue p))"

section \<open>Compositing\<close>

text \<open>
  The canvas draws with \<^verbatim>\<open>globalCompositeOperation = 'source-over'\<close>. With source alpha
  \<open>as\<close> and backdrop alpha \<open>ab\<close> (both in 0..1) the result has alpha
  \<open>ao = as + ab * (1 - as)\<close> and colour \<open>(as * cs + (1 - as) * ab * cb) / ao\<close>; the canvas
  stores each channel rounded to the nearest byte, and \<^verbatim>\<open>Uint8ClampedArray\<close> clamps to 0..255.
  The bitmap is kept as the straight (not premultiplied) RGBA bytes that \<^verbatim>\<open>getImageData\<close>
  returns. A result of alpha 0 holds no colour: it is transparent black.
\<close>

text \<open>A byte read as a JavaScript number.\<close>

definition num :: "byte \<Rightarrow> real" where
  "num b = real (unat b)"

definition clamp8 :: "int \<Rightarrow> byte" where
  "clamp8 v = word_of_int (max 0 (min 255 v))"

definition blend :: "real \<Rightarrow> byte \<Rightarrow> real \<Rightarrow> byte \<Rightarrow> real \<Rightarrow> byte" where
  "blend as cs ab cb ao =
     clamp8 (round ((as * num cs + (1 - as) * ab * num cb) / ao))"

definition source_over :: "byte \<times> byte \<times> byte \<Rightarrow> real \<Rightarrow> rgba \<Rightarrow> rgba" where
  "source_over cs as dst =
     (let ab = num (alpha dst) / 255;
          ao = as + ab * (1 - as)
      in if ao = 0 then transparent
         else (case cs of (sr, sg, sb) \<Rightarrow>
           RGBA (blend as sr ab (red dst) ao) (blend as sg ab (green dst) ao)
                (blend as sb ab (blue dst) ao) (clamp8 (round (255 * ao)))))"

text \<open>
  \<^verbatim>\<open>ctx.arc(x, y, r, 0, Math.PI * 2)\<close> followed by \<^verbatim>\<open>fill()\<close> or \<^verbatim>\<open>clip()\<close>: the full disc of
  radius \<open>r\<close> around \<open>(x, y)\<close>. A pixel belongs to the disc when its centre
  \<open>(i + 1/2, j + 1/2)\<close> does; anti-aliasing of the rim is left out.
\<close>

definition in_disc :: "real \<times> real \<Rightarrow> real \<Rightarrow> nat \<Rightarrow> nat \<Rightarrow> bool" where
  "in_disc ctr r i j =
     ((real i + 1 / 2 - fst ctr)\<^sup>2 + (real j + 1 / 2 - snd ctr)\<^sup>2 \<le> r\<^sup>2)"

text \<open>\<^verbatim>\<open>arc\<close> ignores a call with an argument that is not finite; the path then stays empty
  and is written \<open>None\<close>.\<close>

definition covered :: "(real \<times> real) option \<Rightarrow> real \<Rightarrow> nat \<Rightarrow> nat \<Rightarrow> bool" where
  "covered pt r i j = (case pt of None \<Rightarrow> False | Some ctr \<Rightarrow> in_disc ctr r i j)"

text \<open>\<^verbatim>\<open>fillStyle = 'rgba(255, 0, 0, 0.7)'; fill()\<close> on the path \<open>path\<close>.\<close>

definition fill_red :: "(nat \<Rightarrow> nat \<Rightarrow> bool) \<Rightarrow> canvas \<Rightarrow> canvas" where
  "fill_red path c =
     c\<lparr>pixel := (\<lambda>i j. if i < width c \<and> j < height c \<and> path i j
                        then source_over (255, 0, 0) (7 / 10) (pixel c i j)
                        else pixel c i j)\<rparr>"

text \<open>
  \<^verbatim>\<open>drawImage(img, 0, 0, W, H)\<close> inside the clipping region \<open>clip\<close>. How the browser resamples
  the image to \<open>W\<close> by \<open>H\<close> is a parameter: \<open>sc img W H i j\<close> is the colour the scaled image
  has at pixel \<open>(i, j)\<close>.
\<close>

type_synonym scaler = "image \<Rightarrow> nat \<Rightarrow> nat \<Rightarrow> nat \<Rightarrow> nat \<Rightarrow> rgba"

definition drawImage :: "scaler \<Rightarrow> image \<Rightarrow> nat \<Rightarrow> nat \<Rightarrow> (nat \<Rightarrow> nat \<Rightarrow> bool) \<Rightarrow> canvas \<Rightarrow> canvas" where
  "drawImage sc img W H clip c =
     c\<lparr>pixel := (\<lambda>i j. if i < width c \<and> j < height c \<and> i < W \<and> j < H \<and> clip i j
                        then (let p = sc img W H i j
                              in source_over (red p, green p, blue p) (num (alpha p) / 255)
                                   (pixel c i j))
                        else pixel c i j)\<rparr>"

text \<open>Nearest-neighbour resampling, the scaler of the examples below.\<close>

definition nearest :: scaler where
  "nearest img W H i j = ipixel img (i * iwidth img div W) (j * iheight img div H)"

text \<open>\<^verbatim>\<open>clearRect(0, 0, canvas.width, canvas.height)\<close>, and the reset that assigning
  \<^verbatim>\<open>canvas.width\<close> and \<^verbatim>\<open>canvas.height\<close> performs.\<close>

definition clearRect :: "canvas \<Rightarrow> canvas" where
  "clearRect c = c\<lparr>pixel := (\<lambda>i j. transparent)\<rparr>"

definition blank_canvas :: "nat \<Rightarrow> nat \<Rightarrow> canvas" where
  "blank_canvas w h = \<lparr>width = w, height = h, pixel = (\<lambda>i j. transparent)\<rparr>"

section \<open>The editing session\<close>

text \<open>The inpaint page (\<^verbatim>\<open>app/page.tsx\<close>) and the erase page (\<^verbatim>\<open>app/erase/page.tsx\<close>) share
  their canvas code; they differ in the canvas resolution, the submit validation and the
  endpoint.\<close>

datatype tool = Inpaint | Erase

fun target :: "tool \<Rightarrow> nat" where
  "target Inpaint = 1024"
| "target Erase = 512"

text \<open>A JSON object sent by the server, by the members the pages read.\<close>

record payload =
  success :: bool
  result_image :: string
  detail :: "string option"

text \<open>An image whose \<^verbatim>\<open>onload\<close> callback has been set and has not run yet.\<close>

datatype job =
    InitJob image
  | EraseJob "(real \<times> real) option" nat image
  | ClearJob image

text \<open>The component state (one \<^verbatim>\<open>useState\<close> or \<^verbatim>\<open>useRef\<close> each) and the pending image
  loads. The erase page calls its prompt \<^verbatim>\<open>backgroundPrompt\<close>. \<open>originalImageUrl\<close> is the
  object URL, modelled by the image it points to.\<close>

record session =
  originalImage :: "image option"
  originalImageUrl :: "image option"
  prompt :: string
  negativePrompt :: string
  result :: "payload option"
  loading :: bool
  error :: "string option"
  canvasRef :: "canvas option"
  isDrawing :: bool
  brushSize :: nat
  isEraser :: bool
  canvasInitialized :: bool
  showMaskPreview :: bool
  maskPreviewUrl :: "imagedata option"
  numSteps :: nat
  guidanceScale :: real
  strength :: real
  pending :: "job list"

fun default_negative :: "tool \<Rightarrow> string" where
  "default_negative Inpaint = ''blurry, low quality, distorted, artifacts, bad anatomy, deformed''"
| "default_negative Erase = ''objects, items, people, text, watermark, logo, signature, artifacts, distorted, unrealistic, inconsistent, blurry, low quality, bad quality, jpeg artifacts, noise, grain, duplicate, cropped, out of frame, worst quality, low quality, ugly, deformed, mutation, extra elements, foreign objects''"

definition initial :: "tool \<Rightarrow> session" where
  "initial t =
     \<lparr>originalImage = None, originalImageUrl = None, prompt = [],
      negativePrompt = default_negative t, result = None, loading = False, error = None,
      canvasRef = None, isDrawing = False, brushSize = 20, isEraser = False,
      canvasInitialized = False, showMaskPreview = False, maskPreviewUrl = None,
      numSteps = (case t of Inpaint \<Rightarrow> 20 | Erase \<Rightarrow> 30),
      guidanceScale = (case t of Inpaint \<Rightarrow> 8 | Erase \<Rightarrow> 15 / 2),
      strength = 99 / 100, pending = []\<rparr>"

subsection \<open>Loading an image\<close>

text \<open>
  \<^verbatim>\<open>onOriginalDrop\<close> stores the file and its URL and clears the ready flag. The next render
  mounts the canvas element (it is rendered when \<open>originalImageUrl\<close> is set), and the
  initialisation effect, whose condition then holds, starts loading the image.
\<close>

definition onOriginalDrop :: "image \<Rightarrow> session \<Rightarrow> session" where
  "onOriginalDrop file s =
     s\<lparr>originalImage := Some file, originalImageUrl := Some file, error := None,
       canvasInitialized := False,
       canvasRef := (case canvasRef s of None \<Rightarrow> Some default_canvas | Some c \<Rightarrow> Some c),
       pending := pending s @ [InitJob file]\<rparr>"

subsection \<open>The paint engine\<close>

text \<open>A mouse event with the canvas's bounding client rectangle at that moment.\<close>

record mouse_event =
  clientX :: real
  clientY :: real
  rect_left :: real
  rect_top :: real
  rect_width :: real
  rect_height :: real

text \<open>
  \<^verbatim>\<open>x = (e.clientX - rect.left) * (canvas.width / rect.width)\<close>, and \<open>y\<close> alike. A rectangle
  of width or height zero makes the quotient infinite or NaN, so the point is not finite.
\<close>

definition canvas_point :: "canvas \<Rightarrow> mouse_event \<Rightarrow> (real \<times> real) option" where
  "canvas_point c e =
     (if rect_width e = 0 \<or> rect_height e = 0 then None
      else Some ((clientX e - rect_left e) * (real (width c) / rect_width e),
                 (clientY e - rect_top e) * (real (height c) / rect_height e)))"

text \<open>
  \<^verbatim>\<open>draw\<close>: nothing unless a stroke is active and the canvas element exists. The eraser
  sets up an image whose \<^verbatim>\<open>onload\<close> callback will redraw the original inside the disc;
  the brush fills the disc at once. Both use the radius \<^verbatim>\<open>brushSize / 2\<close>.
\<close>

definition draw :: "mouse_event \<Rightarrow> session \<Rightarrow> session" where
  "draw e s =
     (if \<not> isDrawing s then s
      else case canvasRef s of
        None \<Rightarrow> s
      | Some c \<Rightarrow>
          (let pt = canvas_point c e in
           if isEraser s
           then (case originalImageUrl s of
                   None \<Rightarrow> s
                 | Some img \<Rightarrow> s\<lparr>pending := pending s @ [EraseJob pt (brushSize s) img]\<rparr>)
           else s\<lparr>canvasRef := Some (fill_red (covered pt (real (brushSize s) / 2)) c)\<rparr>))"

text \<open>
  \<^verbatim>\<open>startDrawing\<close> calls \<^verbatim>\<open>setIsDrawing(true)\<close> and then \<^verbatim>\<open>draw(e)\<close>; the \<open>isDrawing\<close> that
  \<^verbatim>\<open>draw\<close> reads is the one of the current render, so the state update does not reach it.
\<close>

definition startDrawing :: "mouse_event \<Rightarrow> session \<Rightarrow> session" where
  "startDrawing e s = (draw e s)\<lparr>isDrawing := True\<rparr>"

definition stopDrawing :: "session \<Rightarrow> session" where
  "stopDrawing s = s\<lparr>isDrawing := False\<rparr>"

text \<open>\<^verbatim>\<open>clearMask\<close> loads the original again; its callback clears the canvas and redraws it.\<close>

definition clearMask :: "session \<Rightarrow> session" where
  "clearMask s =
     (case (canvasRef s, originalImageUrl s) of
        (Some c, Some img) \<Rightarrow> s\<lparr>pending := pending s @ [ClearJob img]\<rparr>
      | _ \<Rightarrow> s)"

text \<open>
  The \<^verbatim>\<open>onload\<close> callbacks. Initialisation sets the canvas to the tool's resolution (which
  resets the bitmap), draws the image stretched over it and sets the ready flag. The
  eraser clips to its disc and draws the image; \<^verbatim>\<open>clearMask\<close> clears and draws. Each
  callback holds the canvas element it captured, which stays mounted.
\<close>

definition whole :: "nat \<Rightarrow> nat \<Rightarrow> bool" where
  "whole i j = True"

fun run_job :: "tool \<Rightarrow> scaler \<Rightarrow> job \<Rightarrow> session \<Rightarrow> session" where
  "run_job t sc (InitJob img) s =
     (case canvasRef s of
        None \<Rightarrow> s
      | Some c \<Rightarrow>
          s\<lparr>canvasRef := Some (drawImage sc img (target t) (target t) whole
                                 (blank_canvas (target t) (target t))),
            canvasInitialized := True\<rparr>)"
| "run_job t sc (EraseJob pt b img) s =
     (case canvasRef s of
        None \<Rightarrow> s
      | Some c \<Rightarrow>
          s\<lparr>canvasRef := Some (drawImage sc img (target t) (target t)
                                 (covered pt (real b / 2)) c)\<rparr>)"
| "run_job t sc (ClearJob img) s =
     (case canvasRef s of
        None \<Rightarrow> s
      | Some c \<Rightarrow>
          s\<lparr>canvasRef := Some (drawImage sc img (target t) (target t) whole (clearRect c))\<rparr>)"

text \<open>The \<open>k\<close>-th pending image finishes loading.\<close>

definition onload :: "tool \<Rightarrow> scaler \<Rightarrow> nat \<Rightarrow> session \<Rightarrow> session" where
  "onload t sc k s =
     (if k < length (pending s)
      then run_job t sc (pending s ! k) (s\<lparr>pending := take k (pending s) @ drop (Suc k) (pending s)\<rparr>)
      else s)"

text \<open>The canvas's mouse handlers (\<^verbatim>\<open>onMouseDown\<close>, \<^verbatim>\<open>onMouseMove\<close>, \<^verbatim>\<open>onMouseUp\<close>,
  \<^verbatim>\<open>onMouseLeave\<close>) and a sequence of pointer events.\<close>

datatype pointer = MouseDown mouse_event | MouseMove mouse_event | MouseUp | MouseLeave

fun handle :: "pointer \<Rightarrow> session \<Rightarrow> session" where
  "handle (MouseDown e) s = startDrawing e s"
| "handle (MouseMove e) s = draw e s"
| "handle MouseUp s = stopDrawing s"
| "handle MouseLeave s = stopDrawing s"

fun handle_all :: "pointer list \<Rightarrow> session \<Rightarrow> session" where
  "handle_all [] s = s"
| "handle_all (p # ps) s = handle_all ps (handle p s)"

subsection \<open>Extraction in the session\<close>

text \<open>\<^verbatim>\<open>canvasToMask\<close> throws when the canvas element is missing, and otherwise extracts from
  it. It calls no state setter and draws on no canvas but its own scratch canvas. A 2d
  context always exists for that scratch canvas, and \<^verbatim>\<open>toBlob\<close> yields a blob for every
  canvas that has pixels, so the promise resolves with the PNG of the mask bitmap.\<close>

definition canvasToMask :: "session \<Rightarrow> exn + imagedata" where
  "canvasToMask s =
     (case canvasRef s of
        None \<Rightarrow> Inl (Error ''Canvas not available'')
      | Some c \<Rightarrow> extract_mask c)"

text \<open>\<^verbatim>\<open>generateMaskPreview\<close> stores the mask for display; a failure is only logged.\<close>

definition generateMaskPreview :: "session \<Rightarrow> session" where
  "generateMaskPreview s =
     (case canvasToMask s of
        Inl e \<Rightarrow> s
      | Inr m \<Rightarrow> s\<lparr>maskPreviewUrl := Some m, showMaskPreview := True\<rparr>)"

subsection \<open>Tool buttons and observations\<close>

text \<open>The brush and eraser buttons and the size slider.\<close>

definition setIsEraser :: "bool \<Rightarrow> session \<Rightarrow> session" where
  "setIsEraser b s = s\<lparr>isEraser := b\<rparr>"

definition setBrushSize :: "nat \<Rightarrow> session \<Rightarrow> session" where
  "setBrushSize n s = s\<lparr>brushSize := n\<rparr>"

text \<open>Pixel \<open>(i, j)\<close> of the surface, when the canvas exists, and pixel \<open>(i, j)\<close> of the mask
  extracted from it.\<close>

definition surface_pixel :: "session \<Rightarrow> nat \<Rightarrow> nat \<Rightarrow> rgba option" where
  "surface_pixel s i j = (case canvasRef s of None \<Rightarrow> None | Some c \<Rightarrow> Some (pixel c i j))"

definition mask_at :: "session \<Rightarrow> nat \<Rightarrow> nat \<Rightarrow> exn + rgba" where
  "mask_at s i j = (case canvasToMask s of Inl e \<Rightarrow> Inl e | Inr m \<Rightarrow> Inr (mask_pixel m i j))"

text \<open>Pixel \<open>q\<close> is at least as red as pixel \<open>p\<close>: no less red and alpha, no more green and blue.\<close>

definition at_least_as_red :: "rgba \<Rightarrow> rgba \<Rightarrow> bool" where
  "at_least_as_red p q =
     (unat (red p) \<le> unat (red q) \<and> unat (green q) \<le> unat (green p) \<and>
      unat (blue q) \<le> unat (blue p) \<and> unat (alpha p) \<le> unat (alpha q))"

section \<open>Submitting\<close>

text \<open>
  The browser is a parameter. Its transport: \<open>fetch br req\<close> is what the one network call
  for \<open>req\<close> ends in, a rejection (by the message of the error) or a response. The body of
  a response is either text that \<^verbatim>\<open>response.json()\<close> rejects (by the message of that error)
  or a JSON object. Its wording: \<open>index_size_text br w h\<close> is the message of the
  IndexSizeError it raises for a rectangle of width \<open>w\<close> and height \<open>h\<close>. A submit handler
  returns the new state and the requests it sent, in order.
\<close>

datatype field = File image | Mask imagedata | Text string | Number real

record request =
  url :: string
  form_fields :: "(string \<times> field) list"

datatype body = NotJson string | Json payload

record response =
  status :: nat
  content :: body

datatype fetch_result = Rejected string | Responded response

record browser =
  fetch :: "request \<Rightarrow> fetch_result"
  index_size_text :: "nat \<Rightarrow> nat \<Rightarrow> string"

text \<open>\<^verbatim>\<open>err.message\<close> of what the extractor threw.\<close>

fun message :: "browser \<Rightarrow> exn \<Rightarrow> string" where
  "message br (Error m) = m"
| "message br (IndexSizeError w h) = index_size_text br w h"

text \<open>\<^verbatim>\<open>response.ok\<close>: a status from 200 to 299.\<close>

definition ok :: "response \<Rightarrow> bool" where
  "ok r = (200 \<le> status r \<and> status r \<le> 299)"

text \<open>The decimal digits of a number, for \<^verbatim>\<open>${response.status}\<close>.\<close>

definition digit :: "nat \<Rightarrow> char" where
  "digit n = ''0123456789'' ! (n mod 10)"

function toString :: "nat \<Rightarrow> string" where
  "toString n = (if n < 10 then [digit n] else toString (n div 10) @ [digit n])"
  by pat_completeness auto
termination
  by (relation "measure id") auto

declare toString.simps [simp del]

text \<open>\<^verbatim>\<open>String.prototype.trim\<close> on strings of Latin-1 characters: it strips tab, line feed,
  vertical tab, form feed, carriage return, space and no-break space from both ends.\<close>

definition is_space :: "char \<Rightarrow> bool" where
  "is_space c = ((of_char c :: nat) \<in> {9, 10, 11, 12, 13, 32, 160})"

definition trim :: "string \<Rightarrow> string" where
  "trim s = rev (dropWhile is_space (rev (dropWhile is_space s)))"

text \<open>The \<^verbatim>\<open>catch\<close> and \<^verbatim>\<open>finally\<close> blocks: \<^verbatim>\<open>setError(err.message); setLoading(false)\<close>.\<close>

definition failed :: "string \<Rightarrow> session \<Rightarrow> session" where
  "failed msg s = s\<lparr>error := Some msg, loading := False\<rparr>"

fun endpoint :: "tool \<Rightarrow> string" where
  "endpoint Inpaint = ''http://127.0.0.1:8000/inpaint''"
| "endpoint Erase = ''http://127.0.0.1:8000/erase''"

fun prompt_field :: "tool \<Rightarrow> string" where
  "prompt_field Inpaint = ''prompt''"
| "prompt_field Erase = ''background_prompt''"

definition form :: "tool \<Rightarrow> session \<Rightarrow> image \<Rightarrow> imagedata \<Rightarrow> request" where
  "form t s img maskFile =
     \<lparr>url = endpoint t,
      form_fields = [(''image'', File img), (''mask'', Mask maskFile),
                (prompt_field t, Text (prompt s)),
                (''negative_prompt'', Text (negativePrompt s)),
                (''num_inference_steps'', Number (real (numSteps s))),
                (''guidance_scale'', Number (guidanceScale s)),
                (''strength'', Number (strength s))]\<rparr>"

text \<open>The first check of \<^verbatim>\<open>handleSubmit\<close>: \<^verbatim>\<open>!originalImage || !prompt.trim()\<close> on the inpaint
  page, \<^verbatim>\<open>!originalImage\<close> on the erase page.\<close>

fun missing_input :: "tool \<Rightarrow> session \<Rightarrow> bool" where
  "missing_input Inpaint s = (originalImage s = None \<or> trim (prompt s) = [])"
| "missing_input Erase s = (originalImage s = None)"

fun missing_message :: "tool \<Rightarrow> string" where
  "missing_message Inpaint = ''Please provide an original image and prompt''"
| "missing_message Erase = ''Please provide an image''"

text \<open>After the request: a status that is not ok throws \<^verbatim>\<open>HTTP error! status: N\<close> without
  reading the body; otherwise the parsed body becomes the result. Every failure ends in
  the \<^verbatim>\<open>catch\<close> block.\<close>

definition receive :: "fetch_result \<Rightarrow> session \<Rightarrow> session" where
  "receive fr s =
     (case fr of
        Rejected msg \<Rightarrow> failed msg s
      | Responded r \<Rightarrow>
          if \<not> ok r then failed (''HTTP error! status: '' @ toString (status r)) s
          else (case content r of
                  NotJson msg \<Rightarrow> failed msg s
                | Json d \<Rightarrow> s\<lparr>result := Some d, loading := False\<rparr>))"

text \<open>\<^verbatim>\<open>handleSubmit\<close>, from the click to the settled request, as one step: the two checks,
  then \<^verbatim>\<open>setLoading(true); setError(null)\<close>, the mask, the form and the one \<^verbatim>\<open>fetch\<close>. Past
  the first check the image is present, so the branch for a missing image is never taken.\<close>

definition handleSubmit :: "tool \<Rightarrow> browser \<Rightarrow> session \<Rightarrow> session \<times> request list" where
  "handleSubmit t br s =
     (if missing_input t s then (s\<lparr>error := Some (missing_message t)\<rparr>, [])
      else if \<not> canvasInitialized s then (s\<lparr>error := Some ''Please wait for the image to load''\<rparr>, [])
      else
        (let s1 = s\<lparr>loading := True, error := None\<rparr> in
         case canvasToMask s1 of
           Inl e \<Rightarrow> (failed (message br e) s1, [])
         | Inr maskFile \<Rightarrow>
             (case originalImage s1 of
                None \<Rightarrow> (s1, [])
              | Some img \<Rightarrow>
                  (let req = form t s1 img maskFile
                   in (receive (fetch br req) s1, [req])))))"

subsection \<open>The generate page\<close>

record generator =
  g_prompt :: string
  g_negativePrompt :: string
  numInferenceSteps :: nat
  g_guidanceScale :: real
  g_width :: nat
  g_height :: nat
  isGenerating :: bool
  generatedImage :: "string option"
  g_result :: "payload option"
  g_error :: "string option"
  showAdvanced :: bool

definition g_failed :: "string \<Rightarrow> generator \<Rightarrow> generator" where
  "g_failed msg g = g\<lparr>g_error := Some msg, isGenerating := False\<rparr>"

definition g_form :: "generator \<Rightarrow> request" where
  "g_form g =
     \<lparr>url = ''http://localhost:8000/generate'',
      form_fields = [(''prompt'', Text (g_prompt g)),
                (''negative_prompt'', Text (g_negativePrompt g)),
                (''num_inference_steps'', Number (real (numInferenceSteps g))),
                (''guidance_scale'', Number (g_guidanceScale g)),
                (''width'', Number (real (g_width g))),
                (''height'', Number (real (g_height g)))]\<rparr>"

text \<open>\<^verbatim>\<open>errorData.detail || 'Generation failed'\<close>: a missing or empty detail is falsy.\<close>

definition detail_or :: "payload \<Rightarrow> string \<Rightarrow> string" where
  "detail_or d dflt = (case detail d of None \<Rightarrow> dflt | Some m \<Rightarrow> if m = [] then dflt else m)"

definition g_receive :: "fetch_result \<Rightarrow> generator \<Rightarrow> generator" where
  "g_receive fr g =
     (case fr of
        Rejected msg \<Rightarrow> g_failed msg g
      | Responded r \<Rightarrow>
          (case content r of
             NotJson msg \<Rightarrow> g_failed msg g
           | Json d \<Rightarrow>
               if \<not> ok r then g_failed (detail_or d ''Generation failed'') g
               else if success d
               then g\<lparr>generatedImage := Some (''data:image/png;base64,'' @ result_image d),
                      g_result := Some d, isGenerating := False\<rparr>
               else g_failed ''Generation failed'' g))"

text \<open>\<^verbatim>\<open>handleGenerate\<close>: both branches call \<^verbatim>\<open>response.json()\<close>, so a body that does not parse
  fails either way.\<close>

definition handleGenerate :: "browser \<Rightarrow> generator \<Rightarrow> generator \<times> request list" where
  "handleGenerate br g =
     (if trim (g_prompt g) = [] then (g\<lparr>g_error := Some ''Please enter a prompt''\<rparr>, [])
      else
        (let g1 = g\<lparr>isGenerating := True, g_error := None, generatedImage := None,
                     g_result := None\<rparr>;
             req = g_form g1
         in (g_receive (fetch br req) g1, [req])))"

section \<open>The sessions a page can reach\<close>

text \<open>
  What can happen to an editing page: an image is dropped, the pointer acts on the canvas,
  a pending image finishes loading, a button of the toolbar is pressed (clear, brush or
  eraser, mask preview), the brush size or the prompt is set, the form is submitted. A
  run starts from the initial state of the page.
\<close>

datatype action =
    Drop image
  | Pointer pointer
  | Loaded nat
  | ClearMask
  | SetEraser bool
  | SetBrush nat
  | SetPrompt string
  | Preview
  | Submit browser

fun act :: "tool \<Rightarrow> scaler \<Rightarrow> action \<Rightarrow> session \<Rightarrow> session" where
  "act t sc (Drop file) s = onOriginalDrop file s"
| "act t sc (Pointer p) s = handle p s"
| "act t sc (Loaded k) s = onload t sc k s"
| "act t sc ClearMask s = clearMask s"
| "act t sc (SetEraser b) s = setIsEraser b s"
| "act t sc (SetBrush n) s = setBrushSize n s"
| "act t sc (SetPrompt p) s = s\<lparr>prompt := p\<rparr>"
| "act t sc Preview s = generateMaskPreview s"
| "act t sc (Submit br) s = fst (handleSubmit t br s)"

fun run :: "tool \<Rightarrow> scaler \<Rightarrow> action list \<Rightarrow> session \<Rightarrow> session" where
  "run t sc [] s = s"
| "run t sc (a # as) s = run t sc as (act t sc a s)"

text \<open>The fully transparent pixels of the surface, if there is one, are all transparent black.\<close>

definition clear_is_blank :: "session \<Rightarrow> bool" where
  "clear_is_blank s =
     (case canvasRef s of
        None \<Rightarrow> True
      | Some c \<Rightarrow> \<forall>i j. alpha (pixel c i j) = 0 \<longrightarrow> pixel c i j = transparent)"

section \<open>Example inputs\<close>

text \<open>A 1024 by 1024 surface, its left half a red that passes the test and its right half one that fails it.\<close>

definition surface0 :: canvas where
  "surface0 = \<lparr>width = 1024, height = 1024,
     pixel = (\<lambda>i j. if i < 512 then RGBA 200 50 50 255 else RGBA 200 120 50 255)\<rparr>"

text \<open>Two 512 by 512 surfaces with the same pixels, all pure red and those of column 0
  half transparent; they differ only outside the bitmap.\<close>

definition surface1 :: canvas where
  "surface1 = \<lparr>width = 512, height = 512,
     pixel = (\<lambda>i j. if i < 512 \<and> j < 512 then RGBA 255 0 0 (if i = 0 then 128 else 255) else RGBA 0 0 0 0)\<rparr>"

definition surface2 :: canvas where
  "surface2 = \<lparr>width = 512, height = 512,
     pixel = (\<lambda>i j. RGBA 255 0 0 (if i = 0 then 128 else 255))\<rparr>"

text \<open>A 300 by 400 photo, opaque, red in its left half and blue in its right half.\<close>

definition photo :: image where
  "photo = \<lparr>iwidth = 300, iheight = 400,
     ipixel = (\<lambda>x y. if x < 150 then RGBA 220 30 30 255 else RGBA 40 90 160 255)\<rparr>"

text \<open>A mouse event at the middle of a canvas displayed at 1024 by 1024.\<close>

definition centre_event :: mouse_event where
  "centre_event = \<lparr>clientX = 512, clientY = 512, rect_left = 0, rect_top = 0,
     rect_width = 1024, rect_height = 1024\<rparr>"

text \<open>The inpaint page with the photo loaded, and then one brush stroke (button down, one
  move, button up) at the middle with the default brush size 20.\<close>

definition loaded :: session where
  "loaded = onload Inpaint nearest 0 (onOriginalDrop photo (initial Inpaint))"

definition painted :: session where
  "painted = handle_all [MouseDown centre_event, MouseMove centre_event, MouseUp] loaded"

text \<open>A mouse event on the canvas while it is displayed at 600 by 600; on the 300 by 150
  canvas of a page that has not initialised yet it maps to the point (100, 50).\<close>

definition early_event :: mouse_event where
  "early_event = \<lparr>clientX = 200, clientY = 200, rect_left = 0, rect_top = 0,
     rect_width = 600, rect_height = 600\<rparr>"

text \<open>The inpaint page right after a photo was dropped, its image still loading.\<close>

definition dropped :: session where
  "dropped = onOriginalDrop photo (initial Inpaint)"

text \<open>A 100 by 100 PNG, opaque blue in its left half and fully transparent in its right half.\<close>

definition cutout :: image where
  "cutout = \<lparr>iwidth = 100, iheight = 100,
     ipixel = (\<lambda>x y. if x < 50 then RGBA 40 90 160 255 else transparent)\<rparr>"

text \<open>One stroke at the middle: button down, one move, button up.\<close>

definition stroke :: "pointer list" where
  "stroke = [MouseDown centre_event, MouseMove centre_event, MouseUp]"

text \<open>The inpaint page with the cutout loaded; then a brush stroke at the middle; then the
  eraser chosen, the same stroke again and the eraser's image loaded; and, instead of
  erasing, \<^verbatim>\<open>clearMask\<close> with its image loaded.\<close>

definition cut_loaded :: session where
  "cut_loaded = onload Inpaint nearest 0 (onOriginalDrop cutout (initial Inpaint))"

definition cut_painted :: session where
  "cut_painted = handle_all stroke cut_loaded"

definition cut_erased :: session where
  "cut_erased = onload Inpaint nearest 0 (handle_all stroke (setIsEraser True cut_painted))"

definition cut_cleared :: session where
  "cut_cleared = onload Inpaint nearest 0 (clearMask cut_painted)"

text \<open>The server's answer when the GPU runs out of memory; a browser whose requests always
  get it and a browser whose network is down, both wording the IndexSizeError as Chromium
  does.\<close>

definition out_of_memory :: response where
  "out_of_memory = \<lparr>status = 500,
     content = Json \<lparr>success = False, result_image = [], detail = Some ''CUDA out of memory''\<rparr>\<rparr>"

definition chromium_text :: "nat \<Rightarrow> nat \<Rightarrow> string" where
  "chromium_text w h =
     ''Failed to execute 'getImageData' on 'CanvasRenderingContext2D': '' @
     (if w = 0 then ''The source width is 0.'' else ''The source height is 0.'')"

definition failing_server :: browser where
  "failing_server = \<lparr>fetch = (\<lambda>req. Responded out_of_memory), index_size_text = chromium_text\<rparr>"

definition no_network :: browser where
  "no_network = \<lparr>fetch = (\<lambda>req. Rejected ''Failed to fetch''), index_size_text = chromium_text\<rparr>"

text \<open>The inpaint page ready to submit (photo loaded, a prompt typed), the erase page with
  the photo loaded and its prompt left empty, and the generate page with a prompt typed.\<close>

definition ready :: session where
  "ready = loaded\<lparr>prompt := ''a red car''\<rparr>"

definition erase_loaded :: session where
  "erase_loaded = onload Erase nearest 0 (onOriginalDrop photo (initial Erase))"

definition generate_ready :: generator where
  "generate_ready =
     \<lparr>g_prompt = ''a red car'',
      g_negativePrompt = ''bad hands, bad anatomy, ugly, deformed, blurry, low quality, worst quality'',
      numInferenceSteps = 25, g_guidanceScale = 7, g_width = 1024, g_height = 1024,
      isGenerating = False, generatedImage = None, g_result = None, g_error = None,
      showAdvanced = False\<rparr>"

text \<open>A 512 by 512 PNG, pure red throughout: opaque up to column 99, half transparent up to
  column 199 and fully transparent from column 200 on. The erase page with it loaded.\<close>

definition veil :: image where
  "veil = \<lparr>iwidth = 512, iheight = 512,
     ipixel = (\<lambda>x y. RGBA 255 0 0 (if x < 100 then 255 else if x < 200 then 128 else 0))\<rparr>"

definition veil_loaded :: session where
  "veil_loaded = run Erase nearest [Drop veil, Loaded 0] (initial Erase)"

section \<open>The extractor, pixel by pixel\<close>

lemma length_fill_black: "length (fill_black i d) = length d"
  by (induction i d rule: fill_black.induct) (subst fill_black.simps, simp)

lemma fill_black_nth:
  "4 dvd i \<Longrightarrow> 4 dvd length d \<Longrightarrow> n < length d \<Longrightarrow>
   fill_black i d ! n = (if i \<le> n then (if n mod 4 = 3 then 255 else 0) else d ! n)"
proof (induction i d rule: fill_black.induct)
  case (1 i d)
  show ?case
  proof (cases "i < length d")
    case False
    with "1.prems" show ?thesis by (subst fill_black.simps) simp
  next
    case True
    let ?d = "d[i := 0, i + 1 := 0, i + 2 := 0, i + 3 := 255]"
    have step: "fill_black i d = fill_black (i + 4) ?d"
      using True by (subst fill_black.simps) simp
    have ih: "fill_black (i + 4) ?d ! n =
        (if i + 4 \<le> n then (if n mod 4 = 3 then 255 else 0) else ?d ! n)"
      using "1.IH" [OF True] "1.prems" by simp
    have room: "i + 3 < length d"
      using True "1.prems"(1,2) by (auto elim!: dvdE)
    have i4: "i mod 4 = 0" using "1.prems"(1) by simp
    show ?thesis
    proof (cases "i + 4 \<le> n")
      case True
      then show ?thesis using step ih by simp
    next
      case far: False
      show ?thesis
      proof (cases "n < i")
        case True
        then show ?thesis using step ih far by simp
      next
        case False
        then consider "n = i" | "n = i + 1" | "n = i + 2" | "n = i + 3"
          using far by arith
        then show ?thesis
        proof cases
          case 1
          then show ?thesis using step ih room i4 by simp
        next
          case 2
          then show ?thesis using step ih room i4 by (simp add: mod_Suc)
        next
          case 3
          have "(i + 2) mod 4 = 2" using i4 by presburger
          then show ?thesis using 3 step ih room by simp
        next
          case 4
          have "(i + 3) mod 4 = 3" using i4 by presburger
          then show ?thesis using 4 step ih room by simp
        qed
      qed
    qed
  qed
qed

lemma length_detect_red: "length (detect_red i src m) = length m"
  by (induction i src m rule: detect_red.induct) (subst detect_red.simps, simp)

lemma detect_red_nth:
  "4 dvd i \<Longrightarrow> length m = length src \<Longrightarrow> n < length m \<Longrightarrow>
   detect_red i src m ! n = (if i \<le> n \<and> red_at src n then 255 else m ! n)"
proof (induction i src m rule: detect_red.induct)
  case (1 i src m)
  show ?case
  proof (cases "i < length src")
    case False
    with "1.prems" show ?thesis by (subst detect_red.simps) simp
  next
    case True
    define hit where "hit = isRed (read_byte src i) (read_byte src (i + 1)) (read_byte src (i + 2))"
    define m' where "m' = (if hit then m[i := 255, i + 1 := 255, i + 2 := 255, i + 3 := 255] else m)"
    have step: "detect_red i src m = detect_red (i + 4) src m'"
      using True by (subst detect_red.simps) (simp add: m'_def hit_def)
    have len': "length m' = length src" using "1.prems"(2) by (simp add: m'_def)
    have ih: "detect_red (i + 4) src m' ! n = (if i + 4 \<le> n \<and> red_at src n then 255 else m' ! n)"
      using "1.IH" [OF True, folded hit_def, folded m'_def] "1.prems" len' by simp
    show ?thesis
    proof (cases "i \<le> n \<and> n < i + 4")
      case False
      then have "n \<noteq> i" "n \<noteq> i + 1" "n \<noteq> i + 2" "n \<noteq> i + 3" by arith+
      then have "m' ! n = m ! n" by (simp add: m'_def)
      moreover have "(i + 4 \<le> n) = (i \<le> n)" using False by arith
      ultimately show ?thesis using step ih by simp
    next
      case near: True
      from "1.prems"(1) obtain k where k: "i = 4 * k" by (elim dvdE)
      have "n div 4 = k" using near k by arith
      then have hit: "red_at src n = hit" using k by (simp add: red_at_def hit_def)
      from near consider "n = i" | "n = i + 1" | "n = i + 2" | "n = i + 3" by arith
      then have upd: "m[i := 255, i + 1 := 255, i + 2 := 255, i + 3 := 255] ! n = 255"
        using "1.prems"(3) by cases simp_all
      have "m' ! n = (if hit then 255 else m ! n)"
        using upd by (simp add: m'_def)
      moreover have "\<not> i + 4 \<le> n" "i \<le> n" using near by arith+
      ultimately show ?thesis using step ih hit by simp
    qed
  qed
qed

lemma getImageData_length: "length (getImageData c) = 4 * width c * height c"
  by (simp add: getImageData_def)

lemma pixel_index:
  assumes "i < w" "j < h"
  shows "j * w + i < w * h" "(j * w + i) mod w = i" "(j * w + i) div w = (j::nat)"
proof -
  have "j * w + i < j * w + w" using assms by simp
  also have "\<dots> = (j + 1) * w" by simp
  also have "\<dots> \<le> h * w" using assms by (intro mult_le_mono1) simp
  finally show "j * w + i < w * h" by (simp add: mult.commute)
  show "(j * w + i) mod w = i" using assms by simp
  show "(j * w + i) div w = j" using assms by simp
qed

lemma four_split:
  fixes p k :: nat
  assumes "k < 4"
  shows "(4 * p + k) mod 4 = k" "(4 * p + k) div 4 = p"
  using assms by simp_all

lemma getImageData_nth:
  assumes "i < width c" "j < height c" "k < 4"
  shows "getImageData c ! (4 * (j * width c + i) + k) = channel k (pixel c i j)"
proof -
  define p where "p = j * width c + i"
  have "p < width c * height c" unfolding p_def using assms pixel_index(1) by blast
  then have lt: "4 * p + k < 4 * width c * height c" using assms(3) by simp
  have pm: "p mod width c = i" "p div width c = j"
    unfolding p_def using pixel_index(2,3) [OF assms(1,2)] by simp_all
  have "getImageData c ! (4 * p + k) = channel k (pixel c i j)"
    unfolding getImageData_def using lt
    by (simp only: nth_map length_upt nth_upt minus_nat.diff_0 add_0 four_split [OF assms(3)] pm)
  then show ?thesis by (simp only: p_def)
qed

lemma read_getImageData:
  assumes "i < width c" "j < height c" "k < 4"
  shows "read_byte (getImageData c) (4 * (j * width c + i) + k) = Some (channel k (pixel c i j))"
proof -
  define p where "p = j * width c + i"
  have "p < width c * height c" unfolding p_def using assms pixel_index(1) by blast
  then have "4 * p + k < length (getImageData c)"
    using assms(3) by (simp add: getImageData_length)
  then show ?thesis
    unfolding read_byte_def p_def using getImageData_nth [OF assms] by simp
qed

lemma red_at_getImageData:
  assumes "i < width c" "j < height c" "k < 4"
  shows "red_at (getImageData c) (4 * (j * width c + i) + k) = marked (pixel c i j)"
proof -
  define p where "p = j * width c + i"
  have d: "(4 * p + k) div 4 = p" using assms(3) by simp
  have r: "read_byte (getImageData c) (4 * p) = Some (red (pixel c i j))"
    using read_getImageData [OF assms(1,2), of 0] by (simp add: p_def channel_def)
  have g: "read_byte (getImageData c) (4 * p + 1) = Some (green (pixel c i j))"
    using read_getImageData [OF assms(1,2), of 1] by (simp add: p_def channel_def)
  have b: "read_byte (getImageData c) (4 * p + 2) = Some (blue (pixel c i j))"
    using read_getImageData [OF assms(1,2), of 2] by (simp add: p_def channel_def)
  have "red_at (getImageData c) (4 * p + k) = marked (pixel c i j)"
    unfolding red_at_def d r g b by (simp add: marked_def)
  then show ?thesis by (simp only: p_def)
qed

lemma extract_mask_data:
  assumes "i < width c" "j < height c" "k < 4"
  shows "detect_red 0 (getImageData c) (fill_black 0 (createImageData (width c) (height c)))
           ! (4 * (j * width c + i) + k)
         = (if marked (pixel c i j) \<or> k = 3 then 255 else 0)"
proof -
  define p where "p = j * width c + i"
  define src where "src = getImageData c"
  define zero where "zero = createImageData (width c) (height c)"
  define blk where "blk = fill_black 0 zero"
  have zlen: "length zero = 4 * width c * height c" by (simp add: zero_def createImageData_def)
  have len: "length blk = length src"
    by (simp add: blk_def src_def length_fill_black zlen getImageData_length)
  have "p < width c * height c" unfolding p_def using assms pixel_index(1) by blast
  then have lt: "4 * p + k < length blk"
    using assms(3) by (simp add: len src_def getImageData_length)
  have dv: "4 dvd length zero" by (simp add: zlen)
  have "4 * p + k < length zero" using lt by (simp add: blk_def length_fill_black)
  then have "blk ! (4 * p + k) = (if (4 * p + k) mod 4 = 3 then 255 else 0)"
    unfolding blk_def using fill_black_nth [OF _ dv, of 0 "4 * p + k"] by simp
  then have blk: "blk ! (4 * p + k) = (if k = 3 then 255 else 0)"
    by (simp only: four_split(1) [OF assms(3)])
  have "red_at src (4 * p + k) = marked (pixel c i j)"
    unfolding src_def p_def by (rule red_at_getImageData [OF assms])
  then have "detect_red 0 src blk ! (4 * p + k) = (if marked (pixel c i j) \<or> k = 3 then 255 else 0)"
    using detect_red_nth [OF _ len lt, of 0] blk by (cases "k = 3") simp_all
  then show ?thesis by (simp only: p_def src_def blk_def zero_def)
qed

lemma extract_mask_pixel:
  assumes "i < width c" "j < height c"
  shows "\<exists>m. extract_mask c = Inr m \<and> dwidth m = width c \<and> dheight m = height c \<and>
           length (data m) = 4 * width c * height c \<and>
           mask_pixel m i j = (if marked (pixel c i j) then white else black)"
proof -
  define d where "d = detect_red 0 (getImageData c) (fill_black 0 (createImageData (width c) (height c)))"
  define m where "m = \<lparr>dwidth = width c, dheight = height c, data = d\<rparr>"
  have ex: "extract_mask c = Inr m" using assms by (simp add: extract_mask_def m_def d_def)
  have b: "d ! (4 * (j * width c + i) + k) = (if marked (pixel c i j) \<or> k = 3 then 255 else 0)"
    if "k < 4" for k
    unfolding d_def by (rule extract_mask_data [OF assms that])
  have "mask_pixel m i j = (if marked (pixel c i j) then white else black)"
    using b [of 0] b [of 1] b [of 2] b [of 3]
    by (simp add: mask_pixel_def white_def black_def Let_def m_def)
  moreover have "length (data m) = 4 * width c * height c"
    by (simp add: m_def d_def length_detect_red length_fill_black createImageData_def)
  ultimately show ?thesis using ex by (simp add: m_def)
qed


lemma marked_iff:
  "marked p = (unat (red p) > 150 \<and> unat (red p) > 2 * unat (green p) \<and> unat (red p) > 2 * unat (blue p))"
  by (simp add: marked_def isRed_def mult.commute)

section \<open>Claims about the mask extractor\<close>

text \<open>
  C1: for every pixel of the surface, \<^verbatim>\<open>canvasToMask\<close> writes the mask pixel at the same
  place as opaque white (255, 255, 255, 255) exactly when the surface pixel has
  \<open>r > 150\<close>, \<open>r > 2 * g\<close> and \<open>r > 2 * b\<close>, and as opaque black (0, 0, 0, 255) otherwise;
  the mask has the width and height of the surface. The red test accepts (200, 50, 50)
  and rejects (200, 120, 50) and (100, 10, 10).
\<close>

theorem canvasToMask_classifies:
  assumes "canvasRef s = Some c" "i < width c" "j < height c"
  shows "(\<exists>m. canvasToMask s = Inr m \<and> dwidth m = width c \<and> dheight m = height c \<and>
            length (data m) = 4 * width c * height c \<and>
            mask_pixel m i j =
              (if unat (red (pixel c i j)) > 150 \<and>
                  unat (red (pixel c i j)) > 2 * unat (green (pixel c i j)) \<and>
                  unat (red (pixel c i j)) > 2 * unat (blue (pixel c i j))
               then RGBA 255 255 255 255 else RGBA 0 0 0 255)) \<and>
         isRed (Some 200) (Some 50) (Some 50) \<and>
         \<not> isRed (Some 200) (Some 120) (Some 50) \<and>
         \<not> isRed (Some 100) (Some 10) (Some 10)"
proof -
  have "\<exists>m. canvasToMask s = Inr m \<and> dwidth m = width c \<and> dheight m = height c \<and>
            length (data m) = 4 * width c * height c \<and>
            mask_pixel m i j = (if marked (pixel c i j) then white else black)"
    using extract_mask_pixel [OF assms(2,3)] assms(1) by (simp add: canvasToMask_def)
  then have general: "\<exists>m. canvasToMask s = Inr m \<and> dwidth m = width c \<and> dheight m = height c \<and>
            length (data m) = 4 * width c * height c \<and>
            mask_pixel m i j =
              (if unat (red (pixel c i j)) > 150 \<and>
                  unat (red (pixel c i j)) > 2 * unat (green (pixel c i j)) \<and>
                  unat (red (pixel c i j)) > 2 * unat (blue (pixel c i j))
               then RGBA 255 255 255 255 else RGBA 0 0 0 255)"
    by (simp only: marked_iff white_def black_def)
  have examples: "isRed (Some 200) (Some 50) (Some 50)" "\<not> isRed (Some 200) (Some 120) (Some 50)"
      "\<not> isRed (Some 100) (Some 10) (Some 10)"
    by (simp_all add: isRed_def)
  from general examples show ?thesis by (intro conjI)
qed

theorem canvasToMask_classifies_witness:
  "\<exists>m. canvasToMask ((initial Inpaint)\<lparr>canvasRef := Some surface0\<rparr>) = Inr m \<and>
       dwidth m = 1024 \<and> dheight m = 1024 \<and> length (data m) = 4194304 \<and>
       mask_pixel m 3 5 = RGBA 255 255 255 255 \<and> mask_pixel m 600 5 = RGBA 0 0 0 255"
proof -
  let ?s = "(initial Inpaint)\<lparr>canvasRef := Some surface0\<rparr>"
  have c: "canvasRef ?s = Some surface0" by simp
  have "3 < width surface0" "600 < width surface0" "5 < height surface0"
    by (simp_all add: surface0_def)
  from canvasToMask_classifies [OF c this(1,3)] canvasToMask_classifies [OF c this(2,3)]
  show ?thesis by (auto simp: surface0_def)
qed

lemma getImageData_cong:
  assumes "width c' = width c" "height c' = height c"
    and "\<forall>i<width c. \<forall>j<height c. pixel c' i j = pixel c i j"
  shows "getImageData c' = getImageData c"
proof -
  have "pixel c' ((n div 4) mod width c) ((n div 4) div width c)
      = pixel c ((n div 4) mod width c) ((n div 4) div width c)"
    if "n < 4 * width c * height c" for n
  proof -
    have w: "0 < width c" using that by (cases "width c") simp_all
    have "n div 4 < width c * height c" using that by simp
    then have "(n div 4) div width c < height c"
      by (simp add: less_mult_imp_div_less mult.commute)
    moreover have "(n div 4) mod width c < width c" using w by simp
    ultimately show ?thesis using assms(3) by blast
  qed
  then show ?thesis by (simp add: getImageData_def assms(1,2))
qed

lemma extract_mask_cong:
  assumes "width c' = width c" "height c' = height c"
    and "\<forall>i<width c. \<forall>j<height c. pixel c' i j = pixel c i j"
  shows "extract_mask c' = extract_mask c"
  using getImageData_cong [OF assms] assms(1,2) by (simp add: extract_mask_def)

lemma canvasRef_generateMaskPreview: "canvasRef (generateMaskPreview s) = canvasRef s"
  by (simp add: generateMaskPreview_def split: sum.splits)

lemma canvasToMask_generateMaskPreview: "canvasToMask (generateMaskPreview s) = canvasToMask s"
  by (simp add: canvasToMask_def canvasRef_generateMaskPreview)

text \<open>
  C2: the extractor is deterministic and idempotent. Its result is a function of the
  surface pixels alone: two sessions whose canvases have the same dimensions and the same
  pixels yield the same outcome, byte for byte, whatever else differs between them.
  Extracting changes neither the canvas nor what a second extraction returns:
  \<^verbatim>\<open>generateMaskPreview\<close>, which calls \<^verbatim>\<open>canvasToMask\<close> and stores the mask, leaves the canvas
  as it was, and calling it twice stores the same mask as calling it once.
\<close>

theorem canvasToMask_deterministic:
  assumes "canvasRef s = Some c" "canvasRef s' = Some c'"
    and "width c' = width c" "height c' = height c"
    and "\<forall>i<width c. \<forall>j<height c. pixel c' i j = pixel c i j"
  shows "canvasToMask s' = canvasToMask s \<and>
         canvasToMask (generateMaskPreview s) = canvasToMask s \<and>
         canvasRef (generateMaskPreview s) = canvasRef s \<and>
         maskPreviewUrl (generateMaskPreview (generateMaskPreview s)) = maskPreviewUrl (generateMaskPreview s)"
proof -
  have "canvasToMask s' = canvasToMask s"
    using extract_mask_cong [OF assms(3-5)] assms(1,2) by (simp add: canvasToMask_def)
  moreover have "maskPreviewUrl (generateMaskPreview (generateMaskPreview s)) = maskPreviewUrl (generateMaskPreview s)"
    by (simp add: generateMaskPreview_def [of "generateMaskPreview s"] canvasToMask_generateMaskPreview)
      (simp add: generateMaskPreview_def split: sum.splits)
  ultimately show ?thesis
    by (simp add: canvasRef_generateMaskPreview canvasToMask_generateMaskPreview)
qed

theorem canvasToMask_deterministic_witness:
  "canvasToMask ((initial Erase)\<lparr>canvasRef := Some surface2, prompt := ''sky'', loading := True\<rparr>)
     = canvasToMask ((initial Erase)\<lparr>canvasRef := Some surface1\<rparr>) \<and>
   canvasToMask (generateMaskPreview ((initial Erase)\<lparr>canvasRef := Some surface1\<rparr>))
     = canvasToMask ((initial Erase)\<lparr>canvasRef := Some surface1\<rparr>)"
proof -
  let ?s = "(initial Erase)\<lparr>canvasRef := Some surface1\<rparr>"
  let ?s' = "(initial Erase)\<lparr>canvasRef := Some surface2, prompt := ''sky'', loading := True\<rparr>"
  have "canvasRef ?s = Some surface1" "canvasRef ?s' = Some surface2" by simp_all
  moreover have "width surface2 = width surface1" "height surface2 = height surface1"
    by (simp_all add: surface1_def surface2_def)
  moreover have "\<forall>i<width surface1. \<forall>j<height surface1. pixel surface2 i j = pixel surface1 i j"
    by (simp add: surface1_def surface2_def)
  ultimately show ?thesis using canvasToMask_deterministic [of ?s surface1 ?s' surface2] by blast
qed

section \<open>Bytes and compositing\<close>

lemma uint_byte_le: "uint (b :: byte) \<le> 255"
  using uint_bounded [of b] by simp

lemma unat_byte_le: "unat (b :: byte) \<le> 255"
proof -
  have "unat b = nat (uint b)" by (rule unat_eq_nat_uint)
  then show ?thesis using uint_byte_le [of b] by linarith
qed

lemma num_bounds: "0 \<le> num b" "num b \<le> 255"
  using unat_byte_le [of b] by (simp_all add: num_def del: of_nat_unat)

lemma round_num: "round (num b) = uint b"
  by (simp add: num_def round_of_nat uint_nat del: of_nat_unat)

lemma uint_clamp8: "0 \<le> v \<Longrightarrow> v \<le> 255 \<Longrightarrow> uint (clamp8 v) = v"
  by (simp add: clamp8_def uint_word_of_int)

lemma unat_clamp8: "0 \<le> v \<Longrightarrow> v \<le> 255 \<Longrightarrow> unat (clamp8 v) = nat v"
  using uint_clamp8 [of v] unat_eq_nat_uint [of "clamp8 v"] by simp

lemma clamp8_uint: "clamp8 (uint b) = b"
  using uint_byte_le [of b] by (simp add: clamp8_def)

lemma num_eq_0: "num b = 0 \<longleftrightarrow> b = 0"
  by (simp add: num_def unat_eq_0 del: of_nat_unat)

lemma num_le_iff: "num a \<le> num b \<longleftrightarrow> unat a \<le> unat b"
  by (simp add: num_def del: of_nat_unat)

text \<open>An opaque source pixel replaces the backdrop.\<close>

lemma source_over_opaque: "source_over (r, g, b) 1 dst = RGBA r g b 255"
  by (simp add: source_over_def blend_def round_num clamp8_uint Let_def clamp8_def [of 255])

text \<open>A fully transparent source pixel leaves a visible backdrop as it is.\<close>

lemma source_over_clear:
  assumes "alpha dst \<noteq> 0"
  shows "source_over cs 0 dst = dst"
proof -
  have pos: "num (alpha dst) \<noteq> 0" using assms by (simp add: num_eq_0)
  obtain r g b where cs: "cs = (r, g, b)" by (cases cs)
  show ?thesis
    using pos unfolding cs
    by (cases dst) (simp add: source_over_def blend_def Let_def round_num clamp8_uint)
qed


lemma uint_clamp8_round:
  assumes "of_int lo \<le> v" "v \<le> of_int hi" "0 \<le> lo" "hi \<le> 255"
  shows "lo \<le> uint (clamp8 (round v))" "uint (clamp8 (round v)) \<le> hi"
proof -
  have "lo \<le> round v" using round_mono [OF assms(1)] by simp
  moreover have "round v \<le> hi" using round_mono [OF assms(2)] by simp
  ultimately have b: "lo \<le> round v" "round v \<le> hi" by simp_all
  then have "uint (clamp8 (round v)) = round v"
    using assms(3,4) by (intro uint_clamp8) linarith+
  then show "lo \<le> uint (clamp8 (round v))" "uint (clamp8 (round v)) \<le> hi"
    using b by simp_all
qed

lemma round_half_up: "of_int k - 1 / 2 \<le> (v :: real) \<Longrightarrow> k \<le> round v"
  unfolding round_def by (simp add: le_floor_iff)

text \<open>The red channel of a red stamp: at least what it was, and at least 179.\<close>

lemma stamp_red:
  fixes ab :: real
  assumes "0 \<le> ab" "ab \<le> 1"
  defines "ao \<equiv> 7 / 10 + ab * (1 - 7 / 10)"
  shows "uint cb \<le> uint (blend (7 / 10) 255 ab cb ao)"
    and "179 \<le> uint (blend (7 / 10) 255 ab cb ao)"
proof -
  define r where "r = num cb"
  define v where "v = (7 / 10 * num 255 + (1 - 7 / 10) * ab * r) / ao"
  have r: "0 \<le> r" "r \<le> 255" unfolding r_def by (rule num_bounds)+
  have ao: "0 < ao" using assms(1) by (simp add: ao_def)
  have n255: "num 255 = 255" by (simp add: num_def)
  have abr: "0 \<le> ab * r" using assms(1) r(1) by simp
  have abr': "ab * r \<le> r" using assms(1,2) r(1) by (simp add: mult_left_le_one_le)
  have num: "v * ao = 357 / 2 + 3 / 10 * (ab * r)"
    using ao by (simp add: v_def n255)
  have ge_r: "r \<le> v"
  proof -
    have "r * ao \<le> v * ao" unfolding num using r by (simp add: ao_def algebra_simps)
    then show ?thesis using ao by simp
  qed
  have ge_h: "357 / 2 \<le> v"
  proof -
    have "357 / 2 * ao \<le> v * ao" unfolding num using abr assms(2) by (simp add: ao_def algebra_simps)
    then show ?thesis using ao by simp
  qed
  have le: "v \<le> 255"
  proof -
    have "ab * r \<le> ab * 255" using assms(1) r(2) by (intro mult_left_mono)
    then have "v * ao \<le> 255 * ao" unfolding num by (simp add: ao_def algebra_simps)
    then show ?thesis using ao by simp
  qed
  have rv: "uint cb \<le> round v"
    using round_mono [OF ge_r] by (simp add: r_def round_num)
  have hv: "179 \<le> round v" using ge_h by (intro round_half_up) simp
  have "round v \<le> 255" using round_mono [OF le] by simp
  then have "uint (clamp8 (round v)) = round v" using hv by (intro uint_clamp8) linarith+
  moreover have "blend (7 / 10) 255 ab cb ao = clamp8 (round v)"
    by (simp add: blend_def v_def r_def)
  ultimately show "uint cb \<le> uint (blend (7 / 10) 255 ab cb ao)"
    and "179 \<le> uint (blend (7 / 10) 255 ab cb ao)"
    using rv hv by simp_all
qed

text \<open>The green and blue channels of a red stamp: at most what they were, and at most 77.\<close>

lemma stamp_other:
  fixes ab :: real
  assumes "0 \<le> ab" "ab \<le> 1"
  defines "ao \<equiv> 7 / 10 + ab * (1 - 7 / 10)"
  shows "uint (blend (7 / 10) 0 ab cb ao) \<le> uint cb"
    and "uint (blend (7 / 10) 0 ab cb ao) \<le> 77"
proof -
  define g where "g = num cb"
  define v where "v = (7 / 10 * num 0 + (1 - 7 / 10) * ab * g) / ao"
  have g: "0 \<le> g" "g \<le> 255" unfolding g_def by (rule num_bounds)+
  have ao: "0 < ao" using assms(1) by (simp add: ao_def)
  have n0: "num 0 = 0" by (simp add: num_def)
  have abg: "0 \<le> ab * g" "ab * g \<le> ab * 255"
    using assms(1) g by (auto intro!: mult_left_mono)
  have abg': "ab * g \<le> g" using assms(1,2) g(1) by (simp add: mult_left_le_one_le)
  have num: "v * ao = 3 / 10 * (ab * g)"
    using ao by (simp add: v_def n0)
  have ge0: "0 \<le> v" using abg(1) ao by (simp add: v_def n0)
  have le_g: "v \<le> g"
  proof -
    have "v * ao \<le> g * ao" unfolding num using abg' g(1) assms(1) by (simp add: ao_def algebra_simps)
    then show ?thesis using ao by simp
  qed
  have le_h: "v \<le> 77"
  proof -
    have "v * ao \<le> 77 * ao" unfolding num using abg assms by (simp add: ao_def algebra_simps)
    then show ?thesis using ao by simp
  qed
  have "round v \<le> round g" by (rule round_mono [OF le_g])
  then have gv: "round v \<le> uint cb" by (simp add: g_def round_num)
  have hv: "round v \<le> 77" using round_mono [OF le_h] by simp
  have "0 \<le> round v" using round_mono [OF ge0] by simp
  then have "uint (clamp8 (round v)) = round v" using hv by (intro uint_clamp8) linarith+
  moreover have "blend (7 / 10) 0 ab cb ao = clamp8 (round v)"
    by (simp add: blend_def v_def g_def)
  ultimately show "uint (blend (7 / 10) 0 ab cb ao) \<le> uint cb"
    and "uint (blend (7 / 10) 0 ab cb ao) \<le> 77"
    using gv hv by simp_all
qed


lemma stamp_pixel:
  fixes p :: rgba
  defines "q \<equiv> source_over (255, 0, 0) (7 / 10) p"
  shows "unat (red p) \<le> unat (red q)" "unat (green q) \<le> unat (green p)"
    "unat (blue q) \<le> unat (blue p)" "unat (alpha p) \<le> unat (alpha q)"
    "179 \<le> uint (red q)" "uint (green q) \<le> 77" "uint (blue q) \<le> 77"
proof -
  define ab where "ab = num (alpha p) / 255"
  define ao where "ao = 7 / 10 + ab * (1 - 7 / 10)"
  have ab: "0 \<le> ab" "ab \<le> 1" using num_bounds [of "alpha p"] by (simp_all add: ab_def)
  have ao: "ao \<noteq> 0" using ab(1) by (simp add: ao_def)
  have q: "q = RGBA (blend (7 / 10) 255 ab (red p) ao) (blend (7 / 10) 0 ab (green p) ao)
                 (blend (7 / 10) 0 ab (blue p) ao) (clamp8 (round (255 * ao)))"
    unfolding q_def source_over_def Let_def ab_def [symmetric] ao_def [symmetric]
    using ao by (simp only: if_False case_prod_conv)
  have v: "255 * ao = 357 / 2 + 3 / 10 * num (alpha p)" by (simp add: ao_def ab_def)
  have "num (alpha p) \<le> 255 * ao" "255 * ao \<le> 255"
    using num_bounds [of "alpha p"] unfolding v by simp_all
  then have "of_int (uint (alpha p)) \<le> 255 * ao" "255 * ao \<le> of_int 255"
    by (simp_all add: num_def uint_nat del: of_nat_unat of_int_uint)
  then have al: "uint (alpha p) \<le> uint (clamp8 (round (255 * ao)))"
    by (intro uint_clamp8_round(1) [where hi = 255]) simp_all
  show "unat (red p) \<le> unat (red q)" "unat (green q) \<le> unat (green p)"
    "unat (blue q) \<le> unat (blue p)" "unat (alpha p) \<le> unat (alpha q)"
    "179 \<le> uint (red q)" "uint (green q) \<le> 77" "uint (blue q) \<le> 77"
    using stamp_red [OF ab, of "red p"] stamp_other [OF ab, of "green p"]
      stamp_other [OF ab, of "blue p"] al
    unfolding q ao_def [symmetric] by (simp_all add: un_ui_le)
qed

lemma stamp_marked: "marked (source_over (255, 0, 0) (7 / 10) p)"
proof -
  let ?q = "source_over (255, 0, 0) (7 / 10) p"
  have "179 \<le> uint (red ?q)" "uint (green ?q) \<le> 77" "uint (blue ?q) \<le> 77"
    by (rule stamp_pixel)+
  then have "179 \<le> unat (red ?q)" "unat (green ?q) \<le> 77" "unat (blue ?q) \<le> 77"
    using uint_nat [of "red ?q"] uint_nat [of "green ?q"] uint_nat [of "blue ?q"] by linarith+
  then show ?thesis by (simp add: marked_def isRed_def)
qed

lemma draw_mark:
  assumes "isDrawing s" "\<not> isEraser s" "canvasRef s = Some c"
  shows "draw e s = s\<lparr>canvasRef := Some (fill_red (covered (canvas_point c e) (real (brushSize s) / 2)) c)\<rparr>"
  using assms by (simp add: draw_def Let_def)

lemma draw_idle: "\<not> isDrawing s \<Longrightarrow> draw e s = s"
  by (simp add: draw_def)

lemma draw_no_canvas: "canvasRef s = None \<Longrightarrow> draw e s = s"
  by (simp add: draw_def)

lemma fill_red_simps [simp]:
  "width (fill_red path c) = width c" "height (fill_red path c) = height c"
  "pixel (fill_red path c) i j =
     (if i < width c \<and> j < height c \<and> path i j
      then source_over (255, 0, 0) (7 / 10) (pixel c i j) else pixel c i j)"
  by (simp_all add: fill_red_def)

lemma drawImage_simps [simp]:
  "width (drawImage sc img W H clip c) = width c" "height (drawImage sc img W H clip c) = height c"
  "pixel (drawImage sc img W H clip c) i j =
     (if i < width c \<and> j < height c \<and> i < W \<and> j < H \<and> clip i j
      then source_over (red (sc img W H i j), green (sc img W H i j), blue (sc img W H i j))
             (num (alpha (sc img W H i j)) / 255) (pixel c i j)
      else pixel c i j)"
  by (simp_all add: drawImage_def Let_def)


lemma blank_canvas_simps [simp]:
  "width (blank_canvas w h) = w" "height (blank_canvas w h) = h"
  "pixel (blank_canvas w h) i j = transparent"
  by (simp_all add: blank_canvas_def)

lemma clearRect_simps [simp]:
  "width (clearRect c) = width c" "height (clearRect c) = height c"
  "pixel (clearRect c) i j = transparent"
  by (simp_all add: clearRect_def)

lemma loaded_eq:
  "loaded = (initial Inpaint)\<lparr>originalImage := Some photo, originalImageUrl := Some photo,
      canvasInitialized := True,
      canvasRef := Some (drawImage nearest photo 1024 1024 whole (blank_canvas 1024 1024))\<rparr>"
  by (simp add: loaded_def onload_def onOriginalDrop_def initial_def)

lemma painted_eq:
  "painted = loaded\<lparr>canvasRef := Some (fill_red (covered (Some (512, 512)) 10)
      (drawImage nearest photo 1024 1024 whole (blank_canvas 1024 1024)))\<rparr>"
  by (simp add: painted_def loaded_eq startDrawing_def stopDrawing_def draw_def initial_def
      canvas_point_def centre_event_def Let_def blank_canvas_def)

lemma mask_at_pixel:
  assumes "canvasRef s = Some c" "i < width c" "j < height c"
  shows "mask_at s i j = Inr (if marked (pixel c i j) then white else black)"
  using extract_mask_pixel [OF assms(2,3)] assms(1) by (auto simp: mask_at_def canvasToMask_def)

lemma loaded_pixel:
  "i < 1024 \<Longrightarrow> j < 1024 \<Longrightarrow>
   pixel (drawImage nearest photo 1024 1024 whole (blank_canvas 1024 1024)) i j
     = (if i * 300 div 1024 < 150 then RGBA 220 30 30 255 else RGBA 40 90 160 255)"
  by (simp add: blank_canvas_def whole_def nearest_def photo_def source_over_opaque
      num_def)


section \<open>Claims about the paint engine\<close>

lemma in_disc_centre: "in_disc (512, 512) 10 512 512" "\<not> in_disc (512, 512) 10 527 512"
  "in_disc (512, 512) 20 527 512" "\<not> in_disc (512, 512) 20 10 10" "\<not> in_disc (512, 512) 10 10 10"
  by (simp_all add: in_disc_def power2_eq_square)

text \<open>
  C3, as the code has it: while a stroke is active in mark mode, each \<^verbatim>\<open>draw\<close> event fills
  one disc centred at the mapped point whose radius is half the brush size (the brush
  size is the diameter), and changes nothing else in the session. Extraction afterwards
  gives white at every pixel of that disc, and elsewhere white exactly where the surface
  already passed the red test, black where it did not.
\<close>

theorem draw_mark_stamps_disc:
  assumes "isDrawing s" "\<not> isEraser s" "canvasRef s = Some c" "i < width c" "j < height c"
  shows "draw e s = s\<lparr>canvasRef := Some (fill_red (covered (canvas_point c e) (real (brushSize s) / 2)) c)\<rparr> \<and>
         surface_pixel (draw e s) i j =
           Some (if covered (canvas_point c e) (real (brushSize s) / 2) i j
                 then source_over (255, 0, 0) (7 / 10) (pixel c i j) else pixel c i j) \<and>
         mask_at (draw e s) i j =
           Inr (if covered (canvas_point c e) (real (brushSize s) / 2) i j \<or> marked (pixel c i j)
                then white else black)"
proof -
  let ?c = "fill_red (covered (canvas_point c e) (real (brushSize s) / 2)) c"
  have d: "draw e s = s\<lparr>canvasRef := Some ?c\<rparr>" by (rule draw_mark [OF assms(1-3)])
  have "mask_at (s\<lparr>canvasRef := Some ?c\<rparr>) i j = Inr (if marked (pixel ?c i j) then white else black)"
    using assms(4,5) by (intro mask_at_pixel) simp_all
  then show ?thesis
    unfolding d using assms(4,5) by (simp add: surface_pixel_def stamp_marked)
qed

theorem draw_mark_stamps_disc_witness:
  "draw centre_event (startDrawing centre_event loaded) =
     (startDrawing centre_event loaded)\<lparr>canvasRef := Some (fill_red (covered (Some (512, 512)) 10)
        (drawImage nearest photo 1024 1024 whole (blank_canvas 1024 1024)))\<rparr> \<and>
   surface_pixel (draw centre_event (startDrawing centre_event loaded)) 512 512 = Some (RGBA 191 27 48 255) \<and>
   mask_at (draw centre_event (startDrawing centre_event loaded)) 512 512 = Inr white \<and>
   mask_at (draw centre_event (startDrawing centre_event loaded)) 527 512 = Inr black"
proof -
  let ?c = "drawImage nearest photo 1024 1024 whole (blank_canvas 1024 1024)"
  let ?s = "startDrawing centre_event loaded"
  have s: "?s = loaded\<lparr>isDrawing := True\<rparr>"
    by (simp add: startDrawing_def draw_def loaded_eq initial_def)
  have pre: "isDrawing ?s" "\<not> isEraser ?s" "canvasRef ?s = Some ?c"
    unfolding s by (simp_all add: loaded_eq initial_def)
  have dims: "512 < width ?c" "512 < height ?c" "527 < width ?c" by simp_all
  have pt: "canvas_point ?c centre_event = Some (512, 512)"
    by (simp add: canvas_point_def centre_event_def blank_canvas_def)
  have bs: "real (brushSize ?s) / 2 = 10" unfolding s by (simp add: loaded_eq initial_def)
  have px: "pixel ?c 512 512 = RGBA 40 90 160 255" "pixel ?c 527 512 = RGBA 40 90 160 255"
    by (simp_all add: loaded_pixel del: drawImage_simps)
  have so: "source_over (255, 0, 0) (7 / 10) (RGBA 40 90 160 255) = RGBA 191 27 48 255"
    by (simp add: source_over_def blend_def clamp8_def num_def round_def Let_def)
  have nm: "\<not> marked (RGBA 40 90 160 255)" by (simp add: marked_def isRed_def)
  have cv: "covered (Some (512, 512)) 10 512 512" "\<not> covered (Some (512, 512)) 10 527 512"
    by (simp_all add: covered_def in_disc_centre)
  have i1: "(if covered (Some (512, 512)) 10 512 512
             then source_over (255, 0, 0) (7 / 10) (RGBA 40 90 160 255) else RGBA 40 90 160 255)
            = RGBA 191 27 48 255"
    using cv so by simp
  have i2: "(if covered (Some (512, 512)) 10 512 512 \<or> marked (RGBA 40 90 160 255) then white else black)
            = white"
    using cv by simp
  have i3: "(if covered (Some (512, 512)) 10 527 512 \<or> marked (RGBA 40 90 160 255) then white else black)
            = black"
    using cv nm by simp
  have "draw centre_event ?s = ?s\<lparr>canvasRef := Some (fill_red (covered (Some (512, 512)) 10) ?c)\<rparr> \<and>
      surface_pixel (draw centre_event ?s) 512 512 = Some (RGBA 191 27 48 255) \<and>
      mask_at (draw centre_event ?s) 512 512 = Inr white"
    using draw_mark_stamps_disc [OF pre dims(1,2), of centre_event]
    unfolding pt bs px(1) i1 i2 .
  moreover have "mask_at (draw centre_event ?s) 527 512 = Inr black"
    using draw_mark_stamps_disc [OF pre dims(3,2), of centre_event, THEN conjunct2, THEN conjunct2]
    unfolding pt bs px(2) i3 .
  ultimately show ?thesis by blast
qed

text \<open>
  C3 as stated fails. With the brush size 20 one stroke at (512, 512) leaves the pixel
  (527, 512) black in the mask although it lies in the disc of radius 20 around the
  centre, and the pixel (10, 10), far outside that disc, is white because the photo is
  red there.
\<close>

theorem stroke_radius_counterexample:
  "brushSize painted = 20 \<and> in_disc (512, 512) 20 527 512 \<and> mask_at painted 527 512 = Inr black \<and>
   \<not> in_disc (512, 512) 20 10 10 \<and> mask_at painted 10 10 = Inr white"
proof -
  let ?c0 = "drawImage nearest photo 1024 1024 whole (blank_canvas 1024 1024)"
  let ?c = "fill_red (covered (Some (512, 512)) 10) ?c0"
  have c: "canvasRef painted = Some ?c" by (simp add: painted_eq)
  have px: "pixel ?c 527 512 = RGBA 40 90 160 255" "pixel ?c 10 10 = RGBA 220 30 30 255"
    by (simp_all add: in_disc_centre covered_def loaded_pixel del: drawImage_simps)
  have "mask_at painted 527 512 = Inr (if marked (pixel ?c 527 512) then white else black)"
    by (rule mask_at_pixel [OF c]) simp_all
  moreover have "mask_at painted 10 10 = Inr (if marked (pixel ?c 10 10) then white else black)"
    by (rule mask_at_pixel [OF c]) simp_all
  moreover have "brushSize painted = 20" by (simp add: painted_eq loaded_eq initial_def)
  ultimately show ?thesis
    unfolding px by (simp add: in_disc_centre marked_def isRed_def)
qed


lemma at_least_as_red_refl: "at_least_as_red p p"
  by (simp add: at_least_as_red_def)

lemma at_least_as_red_trans:
  "at_least_as_red p q \<Longrightarrow> at_least_as_red q r \<Longrightarrow> at_least_as_red p r"
  by (auto simp: at_least_as_red_def)

lemma at_least_as_red_stamp: "at_least_as_red p (source_over (255, 0, 0) (7 / 10) p)"
  unfolding at_least_as_red_def by (intro conjI stamp_pixel)

lemma fill_red_redder: "at_least_as_red (pixel c i j) (pixel (fill_red path c) i j)"
  by (simp add: at_least_as_red_refl at_least_as_red_stamp)

lemma moves_redder:
  assumes "isDrawing s" "\<not> isEraser s" "canvasRef s = Some c"
  shows "\<exists>c'. canvasRef (handle_all (map MouseMove es) s) = Some c' \<and>
           (\<forall>i j. at_least_as_red (pixel c i j) (pixel c' i j))"
  using assms
proof (induction es arbitrary: s c)
  case Nil
  then show ?case by (simp add: at_least_as_red_refl)
next
  case (Cons e es)
  let ?c1 = "fill_red (covered (canvas_point c e) (real (brushSize s) / 2)) c"
  let ?s1 = "s\<lparr>canvasRef := Some ?c1\<rparr>"
  have d: "draw e s = ?s1" by (rule draw_mark [OF Cons.prems])
  have "isDrawing ?s1" "\<not> isEraser ?s1" "canvasRef ?s1 = Some ?c1" using Cons.prems by simp_all
  from Cons.IH [OF this] obtain c' where
    c': "canvasRef (handle_all (map MouseMove es) ?s1) = Some c'"
        "\<forall>i j. at_least_as_red (pixel ?c1 i j) (pixel c' i j)"
    by blast
  have "at_least_as_red (pixel c i j) (pixel c' i j)" for i j
    using fill_red_redder [of c i j] c'(2) by (blast intro: at_least_as_red_trans)
  then show ?case using c'(1) d by simp
qed

text \<open>
  C5: a stamp in mark mode changes only pixels inside its disc. For every session with a
  stroke active in mark mode and every \<^verbatim>\<open>draw\<close> event, the canvas keeps its size, each
  pixel outside the stamped disc keeps its RGBA value, each pixel of the bitmap inside
  the disc becomes the source-over composite of rgba(255, 0, 0, 0.7) with what it was,
  and no pixel gets less red. Any number of further stamps keeps every pixel at least as
  red as before.
\<close>

theorem draw_mark_frame:
  assumes "isDrawing s" "\<not> isEraser s" "canvasRef s = Some c"
  shows "(\<exists>c'. draw e s = s\<lparr>canvasRef := Some c'\<rparr> \<and> width c' = width c \<and> height c' = height c \<and>
            (\<forall>i j. \<not> covered (canvas_point c e) (real (brushSize s) / 2) i j
                    \<longrightarrow> pixel c' i j = pixel c i j) \<and>
            (\<forall>i j. i < width c \<and> j < height c \<and> covered (canvas_point c e) (real (brushSize s) / 2) i j
                    \<longrightarrow> pixel c' i j = source_over (255, 0, 0) (7 / 10) (pixel c i j)) \<and>
            (\<forall>i j. at_least_as_red (pixel c i j) (pixel c' i j))) \<and>
         (\<exists>c'. canvasRef (handle_all (map MouseMove es) s) = Some c' \<and>
            (\<forall>i j. at_least_as_red (pixel c i j) (pixel c' i j)))"
proof -
  let ?c = "fill_red (covered (canvas_point c e) (real (brushSize s) / 2)) c"
  have "draw e s = s\<lparr>canvasRef := Some ?c\<rparr>" by (rule draw_mark [OF assms])
  moreover have "width ?c = width c" "height ?c = height c" by simp_all
  moreover have "\<forall>i j. \<not> covered (canvas_point c e) (real (brushSize s) / 2) i j
      \<longrightarrow> pixel ?c i j = pixel c i j" by simp
  moreover have "\<forall>i j. i < width c \<and> j < height c \<and> covered (canvas_point c e) (real (brushSize s) / 2) i j
      \<longrightarrow> pixel ?c i j = source_over (255, 0, 0) (7 / 10) (pixel c i j)" by simp
  moreover have "\<forall>i j. at_least_as_red (pixel c i j) (pixel ?c i j)"
    by (intro allI fill_red_redder)
  ultimately have one: "\<exists>c'. draw e s = s\<lparr>canvasRef := Some c'\<rparr> \<and> width c' = width c \<and> height c' = height c \<and>
            (\<forall>i j. \<not> covered (canvas_point c e) (real (brushSize s) / 2) i j
                    \<longrightarrow> pixel c' i j = pixel c i j) \<and>
            (\<forall>i j. i < width c \<and> j < height c \<and> covered (canvas_point c e) (real (brushSize s) / 2) i j
                    \<longrightarrow> pixel c' i j = source_over (255, 0, 0) (7 / 10) (pixel c i j)) \<and>
            (\<forall>i j. at_least_as_red (pixel c i j) (pixel c' i j))"
    by blast
  show ?thesis using one moves_redder [OF assms, of es] by blast
qed

theorem draw_mark_frame_witness:
  "\<exists>c'. draw centre_event (loaded\<lparr>isDrawing := True, canvasRef := Some surface0\<rparr>)
          = loaded\<lparr>isDrawing := True, canvasRef := Some c'\<rparr> \<and>
        width c' = 1024 \<and> height c' = 1024 \<and>
        pixel c' 527 512 = RGBA 200 120 50 255 \<and>
        pixel c' 512 512 = RGBA 239 36 15 255"
proof -
  let ?s = "loaded\<lparr>isDrawing := True, canvasRef := Some surface0\<rparr>"
  have pre: "isDrawing ?s" "\<not> isEraser ?s" "canvasRef ?s = Some surface0"
    by (simp_all add: loaded_eq initial_def)
  have pt: "canvas_point surface0 centre_event = Some (512, 512)"
    by (simp add: canvas_point_def centre_event_def surface0_def)
  have bs: "real (brushSize ?s) / 2 = 10" by (simp add: loaded_eq initial_def)
  have cv: "covered (Some (512, 512)) 10 512 512" "\<not> covered (Some (512, 512)) 10 527 512"
    by (simp_all add: covered_def in_disc_centre)
  have so: "source_over (255, 0, 0) (7 / 10) (RGBA 200 120 50 255) = RGBA 239 36 15 255"
    by (simp add: source_over_def blend_def clamp8_def num_def round_def Let_def)
  from draw_mark_frame [OF pre, of centre_event "[]", THEN conjunct1, unfolded pt bs]
  obtain c' where c': "draw centre_event ?s = ?s\<lparr>canvasRef := Some c'\<rparr>"
      "width c' = width surface0" "height c' = height surface0"
      "\<forall>i j. \<not> covered (Some (512, 512)) 10 i j \<longrightarrow> pixel c' i j = pixel surface0 i j"
      "\<forall>i j. i < width surface0 \<and> j < height surface0 \<and> covered (Some (512, 512)) 10 i j
         \<longrightarrow> pixel c' i j = source_over (255, 0, 0) (7 / 10) (pixel surface0 i j)"
    by blast
  have "pixel c' 527 512 = RGBA 200 120 50 255"
    using c'(4) cv(2) by (simp add: surface0_def)
  moreover have "pixel c' 512 512 = RGBA 239 36 15 255"
    using c'(5) cv(1) so by (simp add: surface0_def)
  ultimately show ?thesis using c'(1-3) by (intro exI [of _ c']) (simp add: surface0_def)
qed


lemma dropped_eq:
  "dropped = (initial Inpaint)\<lparr>originalImage := Some photo, originalImageUrl := Some photo,
      canvasRef := Some default_canvas, pending := [InitJob photo]\<rparr>"
  by (simp add: dropped_def onOriginalDrop_def initial_def)

section \<open>Painting and the ready flag\<close>

lemma handle_no_canvas:
  assumes "canvasRef s = None"
  shows "handle p s = s\<lparr>isDrawing := isDrawing (handle p s)\<rparr>"
  using assms by (cases p) (simp_all add: startDrawing_def stopDrawing_def draw_no_canvas)

lemma handle_all_no_canvas:
  assumes "canvasRef s = None"
  shows "handle_all ps s = s\<lparr>isDrawing := isDrawing (handle_all ps s)\<rparr>"
  using assms
proof (induction ps arbitrary: s)
  case Nil
  then show ?case by simp
next
  case (Cons p ps)
  define b where "b = isDrawing (handle p s)"
  have h: "handle p s = s\<lparr>isDrawing := b\<rparr>"
    unfolding b_def by (rule handle_no_canvas [OF Cons.prems])
  have "canvasRef (s\<lparr>isDrawing := b\<rparr>) = None" using Cons.prems by simp
  from Cons.IH [OF this]
  have "handle_all ps (s\<lparr>isDrawing := b\<rparr>)
      = s\<lparr>isDrawing := isDrawing (handle_all ps (s\<lparr>isDrawing := b\<rparr>))\<rparr>"
    by simp
  then show ?case by (simp add: h)
qed

lemma init_job_canvas:
  assumes "canvasRef s \<noteq> None"
  shows "canvasRef (run_job t sc (InitJob img) s)
       = Some (drawImage sc img (target t) (target t) whole (blank_canvas (target t) (target t)))"
  using assms by (cases "canvasRef s") simp_all

text \<open>
  C9, as the code has it: the paint handlers are gated on the stroke flag and on the
  canvas element, not on the ready flag. While the canvas element does not exist (no
  image has been chosen), every sequence of pointer events changes nothing but the
  stroke flag; a \<^verbatim>\<open>draw\<close> with no stroke active changes nothing. Once the canvas exists a
  stroke paints on it whether or not initialisation has completed; initialisation then
  resets the canvas and draws the image, so the canvas it leaves does not depend on what
  was painted before.
\<close>

theorem paint_gated_on_canvas:
  "(canvasRef s = None \<longrightarrow>
      canvasRef (handle_all ps s) = None \<and>
      handle_all ps s = s\<lparr>isDrawing := isDrawing (handle_all ps s)\<rparr>) \<and>
   (\<not> isDrawing s \<longrightarrow> draw e s = s) \<and>
   (canvasRef s \<noteq> None \<longrightarrow>
      canvasRef (run_job t sc (InitJob img) s)
        = Some (drawImage sc img (target t) (target t) whole (blank_canvas (target t) (target t))))"
proof (intro conjI impI)
  assume n: "canvasRef s = None"
  show "handle_all ps s = s\<lparr>isDrawing := isDrawing (handle_all ps s)\<rparr>"
    by (rule handle_all_no_canvas [OF n])
  then have "canvasRef (handle_all ps s) = canvasRef (s\<lparr>isDrawing := isDrawing (handle_all ps s)\<rparr>)"
    by simp
  then show "canvasRef (handle_all ps s) = None" using n by simp
next
  assume "\<not> isDrawing s"
  then show "draw e s = s" by (rule draw_idle)
next
  assume "canvasRef s \<noteq> None"
  then show "canvasRef (run_job t sc (InitJob img) s)
      = Some (drawImage sc img (target t) (target t) whole (blank_canvas (target t) (target t)))"
    by (rule init_job_canvas)
qed

theorem paint_gated_on_canvas_witness:
  "handle_all [MouseDown early_event, MouseMove early_event, MouseUp] (initial Inpaint) = initial Inpaint \<and>
   draw early_event dropped = dropped \<and>
   canvasRef (run_job Inpaint nearest (InitJob photo)
                (handle_all [MouseDown early_event, MouseMove early_event] dropped))
     = canvasRef loaded"
proof -
  let ?ps = "[MouseDown early_event, MouseMove early_event, MouseUp]"
  let ?s' = "handle_all [MouseDown early_event, MouseMove early_event] dropped"
  have n: "canvasRef (initial Inpaint) = None" "\<not> isDrawing dropped"
    by (simp_all add: initial_def dropped_eq)
  have c: "canvasRef ?s' \<noteq> None"
    by (simp add: dropped_eq startDrawing_def draw_def initial_def Let_def)
  have "isDrawing (handle_all ?ps (initial Inpaint)) = False"
    by (simp add: stopDrawing_def)
  moreover have "(initial Inpaint)\<lparr>isDrawing := False\<rparr> = initial Inpaint"
    by (simp add: initial_def)
  ultimately have "handle_all ?ps (initial Inpaint) = initial Inpaint"
    using paint_gated_on_canvas [of "initial Inpaint" ?ps] n(1) by simp
  moreover have "draw early_event dropped = dropped"
    using paint_gated_on_canvas [of dropped] n(2) by blast
  moreover have "canvasRef (run_job Inpaint nearest (InitJob photo) ?s') = canvasRef loaded"
    using paint_gated_on_canvas [of ?s' _ _ Inpaint nearest photo] c by (simp add: loaded_eq)
  ultimately show ?thesis by blast
qed

text \<open>
  C9 as stated fails. After a photo is dropped and before it has loaded, the ready flag
  is false and the canvas is the browser's blank 300 by 150 one; a button press and one
  move at the point mapped to (100, 50) turn that pixel from transparent into the
  brush's red, and the ready flag is still false.
\<close>

theorem paint_before_ready_counterexample:
  "\<not> canvasInitialized dropped \<and>
   \<not> canvasInitialized (handle_all [MouseDown early_event, MouseMove early_event] dropped) \<and>
   surface_pixel dropped 100 50 = Some transparent \<and>
   surface_pixel (handle_all [MouseDown early_event, MouseMove early_event] dropped) 100 50
     = Some (RGBA 255 0 0 179)"
proof -
  have so: "source_over (255, 0, 0) (7 / 10) transparent = RGBA 255 0 0 179"
    by (simp add: source_over_def blend_def clamp8_def num_def round_def Let_def transparent_def)
  have pt: "canvas_point default_canvas early_event = Some (100, 50)"
    by (simp add: canvas_point_def early_event_def default_canvas_def)
  have cv: "covered (Some (100, 50)) 10 100 50"
    by (simp add: covered_def in_disc_def power2_eq_square)
  have h: "handle_all [MouseDown early_event, MouseMove early_event] dropped
      = dropped\<lparr>isDrawing := True,
          canvasRef := Some (fill_red (covered (Some (100, 50)) 10) default_canvas)\<rparr>"
    by (simp add: dropped_eq startDrawing_def draw_def initial_def Let_def pt)
  have px: "pixel default_canvas 100 50 = transparent" "100 < width default_canvas"
      "50 < height default_canvas"
    by (simp_all add: default_canvas_def)
  have "surface_pixel dropped 100 50 = Some transparent"
    by (simp add: surface_pixel_def dropped_eq px)
  moreover have "surface_pixel (dropped\<lparr>isDrawing := True,
      canvasRef := Some (fill_red (covered (Some (100, 50)) 10) default_canvas)\<rparr>) 100 50
      = Some (RGBA 255 0 0 179)"
    by (simp add: surface_pixel_def px cv so)
  moreover have "\<not> canvasInitialized dropped" by (simp add: dropped_eq initial_def)
  ultimately show ?thesis unfolding h by simp
qed


section \<open>Initialisation and the eraser\<close>

text \<open>
  C6: for every source image, whatever its width and height, and from every session,
  once the image dropped on the page has loaded the canvas is exactly the tool's square,
  1024 by 1024 on the inpaint page and 512 by 512 on the erase page, the ready flag is
  set, and every pixel of the canvas shows the image stretched to that square (the
  scaled image drawn over a blank canvas).
\<close>

theorem initialize_dimensions:
  "\<exists>c. canvasRef (onload t sc (length (pending s)) (onOriginalDrop img s)) = Some c \<and>
       canvasInitialized (onload t sc (length (pending s)) (onOriginalDrop img s)) \<and>
       width c = target t \<and> height c = target t \<and>
       (\<forall>i j. pixel c i j =
          (if i < target t \<and> j < target t
           then source_over (red (sc img (target t) (target t) i j),
                             green (sc img (target t) (target t) i j),
                             blue (sc img (target t) (target t) i j))
                  (num (alpha (sc img (target t) (target t) i j)) / 255) transparent
           else transparent)) \<and>
       target Inpaint = 1024 \<and> target Erase = 512"
proof -
  let ?c = "drawImage sc img (target t) (target t) whole (blank_canvas (target t) (target t))"
  let ?s = "onOriginalDrop img s"
  have p: "pending ?s = pending s @ [InitJob img]" by (simp add: onOriginalDrop_def)
  have c: "canvasRef ?s \<noteq> None" by (simp add: onOriginalDrop_def split: option.splits)
  have k: "pending ?s ! length (pending s) = InitJob img" by (simp add: p)
  define s1 where "s1 = ?s\<lparr>pending := take (length (pending s)) (pending ?s) @ drop (Suc (length (pending s))) (pending ?s)\<rparr>"
  have c1: "canvasRef s1 \<noteq> None" using c by (simp add: s1_def)
  have o: "onload t sc (length (pending s)) ?s = run_job t sc (InitJob img) s1"
    by (simp add: onload_def p s1_def)
  have "canvasRef (run_job t sc (InitJob img) s1) = Some ?c" by (rule init_job_canvas [OF c1])
  moreover have "canvasInitialized (run_job t sc (InitJob img) s1)"
    using c1 by (cases "canvasRef s1") simp_all
  moreover have "pixel ?c i j =
          (if i < target t \<and> j < target t
           then source_over (red (sc img (target t) (target t) i j),
                             green (sc img (target t) (target t) i j),
                             blue (sc img (target t) (target t) i j))
                  (num (alpha (sc img (target t) (target t) i j)) / 255) transparent
           else transparent)" for i j
    by (simp add: whole_def)
  ultimately show ?thesis unfolding o by (intro exI [of _ ?c]) simp
qed

lemma cut_loaded_eq:
  "cut_loaded = (initial Inpaint)\<lparr>originalImage := Some cutout, originalImageUrl := Some cutout,
      canvasInitialized := True,
      canvasRef := Some (drawImage nearest cutout 1024 1024 whole (blank_canvas 1024 1024))\<rparr>"
  by (simp add: cut_loaded_def onload_def onOriginalDrop_def initial_def)

lemma cut_painted_eq:
  "cut_painted = cut_loaded\<lparr>canvasRef := Some (fill_red (covered (Some (512, 512)) 10)
      (drawImage nearest cutout 1024 1024 whole (blank_canvas 1024 1024)))\<rparr>"
  by (simp add: cut_painted_def stroke_def cut_loaded_eq startDrawing_def stopDrawing_def draw_def
      initial_def canvas_point_def centre_event_def Let_def)

lemma cut_erase_pending:
  "handle_all stroke (setIsEraser True cut_painted)
     = (setIsEraser True cut_painted)\<lparr>pending := [EraseJob (Some (512, 512)) 20 cutout]\<rparr>"
  by (simp add: stroke_def setIsEraser_def cut_painted_eq cut_loaded_eq startDrawing_def
      stopDrawing_def draw_def initial_def canvas_point_def centre_event_def Let_def)

lemma cut_erased_eq:
  "cut_erased = (setIsEraser True cut_painted)\<lparr>canvasRef :=
      Some (drawImage nearest cutout 1024 1024 (covered (Some (512, 512)) 10)
        (fill_red (covered (Some (512, 512)) 10)
          (drawImage nearest cutout 1024 1024 whole (blank_canvas 1024 1024))))\<rparr>"
  unfolding cut_erased_def cut_erase_pending
  by (simp add: onload_def setIsEraser_def cut_painted_eq cut_loaded_eq initial_def)

lemma cut_cleared_eq:
  "cut_cleared = cut_painted\<lparr>canvasRef :=
      Some (drawImage nearest cutout 1024 1024 whole (clearRect
        (fill_red (covered (Some (512, 512)) 10)
          (drawImage nearest cutout 1024 1024 whole (blank_canvas 1024 1024)))))\<rparr>"
  by (simp add: cut_cleared_def clearMask_def onload_def cut_painted_eq cut_loaded_eq initial_def)

lemma cutout_scaled:
  "nearest cutout 1024 1024 512 512 = transparent"
  "nearest cutout 1024 1024 505 512 = RGBA 40 90 160 255"
  by (simp_all add: nearest_def cutout_def)

lemma composites:
  "source_over (0, 0, 0) 0 transparent = transparent"
  "source_over (255, 0, 0) (7 / 10) transparent = RGBA 255 0 0 179"
  "source_over (0, 0, 0) 0 (RGBA 255 0 0 179) = RGBA 255 0 0 179"
  "source_over (255, 0, 0) (7 / 10) (RGBA 40 90 160 255) = RGBA 191 27 48 255"
  by (simp_all add: source_over_def blend_def clamp8_def num_def round_def Let_def transparent_def)

text \<open>What the eraser's callback does to a pixel of its disc: an opaque pixel of the scaled
  image replaces the surface pixel, a fully transparent one leaves visible paint as it is.\<close>

lemma eraser_pixel:
  assumes "canvasRef s = Some c" "i < width c" "j < height c" "i < target t" "j < target t"
    and "covered pt (real b / 2) i j"
  shows "alpha (sc img (target t) (target t) i j) = 255 \<Longrightarrow>
           surface_pixel (run_job t sc (EraseJob pt b img) s) i j = Some (sc img (target t) (target t) i j)"
    and "alpha (sc img (target t) (target t) i j) = 0 \<Longrightarrow> alpha (pixel c i j) \<noteq> 0 \<Longrightarrow>
           surface_pixel (run_job t sc (EraseJob pt b img) s) i j = Some (pixel c i j)"
proof -
  define p where "p = sc img (target t) (target t) i j"
  have px: "surface_pixel (run_job t sc (EraseJob pt b img) s) i j
      = Some (source_over (red p, green p, blue p) (num (alpha p) / 255) (pixel c i j))"
    using assms by (simp add: surface_pixel_def p_def)
  show "surface_pixel (run_job t sc (EraseJob pt b img) s) i j = Some (sc img (target t) (target t) i j)"
    if "alpha (sc img (target t) (target t) i j) = 255"
  proof -
    have "num (alpha p) / 255 = 1" using that by (simp add: p_def num_def)
    then have "source_over (red p, green p, blue p) (num (alpha p) / 255) (pixel c i j)
        = RGBA (red p) (green p) (blue p) 255"
      by (simp add: source_over_opaque)
    also have "\<dots> = p" using that by (cases p) (simp add: p_def)
    finally show ?thesis unfolding px by (simp add: p_def)
  qed
  show "surface_pixel (run_job t sc (EraseJob pt b img) s) i j = Some (pixel c i j)"
    if "alpha (sc img (target t) (target t) i j) = 0" "alpha (pixel c i j) \<noteq> 0"
  proof -
    have "num (alpha p) / 255 = 0" using that(1) by (simp add: p_def num_def)
    then show ?thesis unfolding px by (simp add: source_over_clear [OF that(2)])
  qed
qed

text \<open>
  C4 on a PNG with transparent pixels. The brush stroke and the eraser stroke cover the
  same disc. Where the scaled image is opaque, pixel (505, 512), the eraser brings the
  original pixel back. Where it is transparent, pixel (512, 512), the original surface
  pixel is transparent, the brush makes it red, and the eraser's \<^verbatim>\<open>drawImage\<close> composites a
  transparent pixel over the paint and leaves it red. \<^verbatim>\<open>clearMask\<close>, which clears the
  canvas before it draws, does bring the transparent pixel back.
\<close>

theorem eraser_keeps_paint_on_transparent:
  "covered (Some (512, 512)) 10 512 512 \<and> covered (Some (512, 512)) 10 505 512 \<and>
   surface_pixel cut_loaded 505 512 = Some (RGBA 40 90 160 255) \<and>
   surface_pixel cut_painted 505 512 = Some (RGBA 191 27 48 255) \<and>
   surface_pixel cut_erased 505 512 = Some (RGBA 40 90 160 255) \<and>
   surface_pixel cut_loaded 512 512 = Some (RGBA 0 0 0 0) \<and>
   surface_pixel cut_painted 512 512 = Some (RGBA 255 0 0 179) \<and>
   surface_pixel cut_erased 512 512 = Some (RGBA 255 0 0 179) \<and>
   surface_pixel cut_cleared 512 512 = Some (RGBA 0 0 0 0)"
proof -
  have cv: "covered (Some (512, 512)) 10 512 512" "covered (Some (512, 512)) 10 505 512"
    by (simp_all add: covered_def in_disc_def power2_eq_square)
  have n: "num 0 / 255 = 0" "num 255 / 255 = 1" by (simp_all add: num_def)
  have "surface_pixel cut_loaded 505 512 = Some (RGBA 40 90 160 255)"
    by (simp add: surface_pixel_def cut_loaded_eq whole_def cutout_scaled n source_over_opaque)
  moreover have "surface_pixel cut_painted 505 512 = Some (RGBA 191 27 48 255)"
    by (simp add: surface_pixel_def cut_painted_eq whole_def cutout_scaled n source_over_opaque
        cv composites)
  moreover have "surface_pixel cut_erased 505 512 = Some (RGBA 40 90 160 255)"
    by (simp add: surface_pixel_def cut_erased_eq cutout_scaled n source_over_opaque cv)
  moreover have "surface_pixel cut_loaded 512 512 = Some (RGBA 0 0 0 0)"
    by (simp add: surface_pixel_def cut_loaded_eq whole_def cutout_scaled transparent_def n
        composites [unfolded transparent_def])
  moreover have "surface_pixel cut_painted 512 512 = Some (RGBA 255 0 0 179)"
    by (simp add: surface_pixel_def cut_painted_eq whole_def cutout_scaled transparent_def n
        composites [unfolded transparent_def] cv)
  moreover have "surface_pixel cut_erased 512 512 = Some (RGBA 255 0 0 179)"
    by (simp add: surface_pixel_def cut_erased_eq whole_def cutout_scaled transparent_def n
        composites [unfolded transparent_def] cv)
  moreover have "surface_pixel cut_cleared 512 512 = Some (RGBA 0 0 0 0)"
    by (simp add: surface_pixel_def cut_cleared_eq whole_def cutout_scaled transparent_def n
        composites [unfolded transparent_def])
  ultimately show ?thesis using cv by blast
qed


section \<open>Claims about submitting\<close>

lemma toString_500: "toString 500 = ''500''"
  by (simp add: toString.simps digit_def)

lemma trim_examples: "trim ''a red car'' \<noteq> []" "trim ''   '' = []" "trim [] = []"
  by (simp_all add: trim_def is_space_def)

lemma erase_loaded_eq:
  "erase_loaded = (initial Erase)\<lparr>originalImage := Some photo, originalImageUrl := Some photo,
      canvasInitialized := True,
      canvasRef := Some (drawImage nearest photo 512 512 whole (blank_canvas 512 512))\<rparr>"
  by (simp add: erase_loaded_def onload_def onOriginalDrop_def initial_def)

lemma canvasToMask_Inr:
  assumes "canvasRef s = Some c" "0 < width c" "0 < height c"
  shows "\<exists>m. canvasToMask s = Inr m"
  using assms by (simp add: canvasToMask_def extract_mask_def)

lemma handleSubmit_sends:
  assumes "\<not> missing_input t s" "canvasInitialized s" "canvasRef s = Some c"
    "0 < width c" "0 < height c"
  shows "\<exists>img m. originalImage s = Some img \<and> canvasToMask s = Inr m \<and>
           handleSubmit t br s =
             (receive (fetch br (form t (s\<lparr>loading := True, error := None\<rparr>) img m))
                (s\<lparr>loading := True, error := None\<rparr>),
              [form t (s\<lparr>loading := True, error := None\<rparr>) img m])"
proof -
  obtain m where m: "canvasToMask s = Inr m" using canvasToMask_Inr [OF assms(3-5)] by blast
  obtain img where img: "originalImage s = Some img"
    using assms(1) by (cases t; cases "originalImage s") simp_all
  have "canvasToMask (s\<lparr>loading := True, error := None\<rparr>) = Inr m"
    using m by (simp add: canvasToMask_def)
  then show ?thesis
    using assms(1,2) img m by (simp add: handleSubmit_def Let_def)
qed

text \<open>
  C7 at a server error. The inpaint and erase pages throw
  \<^verbatim>\<open>HTTP error! status: 500\<close> without reading the body, so the detail the server sent
  is not what they show; the generate page, given the same response, shows the detail.
  Each page makes its one request and clears its loading flag.
\<close>

theorem server_detail_not_surfaced:
  "error (fst (handleSubmit Inpaint failing_server ready)) = Some ''HTTP error! status: 500'' \<and>
   loading (fst (handleSubmit Inpaint failing_server ready)) = False \<and>
   length (snd (handleSubmit Inpaint failing_server ready)) = 1 \<and>
   error (fst (handleSubmit Erase failing_server erase_loaded)) = Some ''HTTP error! status: 500'' \<and>
   loading (fst (handleSubmit Erase failing_server erase_loaded)) = False \<and>
   g_error (fst (handleGenerate failing_server generate_ready)) = Some ''CUDA out of memory'' \<and>
   isGenerating (fst (handleGenerate failing_server generate_ready)) = False"
proof -
  have r: "receive (Responded out_of_memory) s = failed ''HTTP error! status: 500'' s" for s
    by (simp add: receive_def ok_def out_of_memory_def toString_500)
  have i: "\<not> missing_input Inpaint ready" "canvasInitialized ready"
      "canvasRef ready = Some (drawImage nearest photo 1024 1024 whole (blank_canvas 1024 1024))"
    by (simp_all add: ready_def loaded_eq initial_def trim_examples)
  have e: "\<not> missing_input Erase erase_loaded" "canvasInitialized erase_loaded"
      "canvasRef erase_loaded = Some (drawImage nearest photo 512 512 whole (blank_canvas 512 512))"
    by (simp_all add: erase_loaded_eq initial_def)
  obtain img m where
    "handleSubmit Inpaint failing_server ready =
       (failed ''HTTP error! status: 500'' (ready\<lparr>loading := True, error := None\<rparr>),
        [form Inpaint (ready\<lparr>loading := True, error := None\<rparr>) img m])"
    using handleSubmit_sends [OF i, of failing_server] by (auto simp: failing_server_def r)
  moreover obtain img' m' where
    "handleSubmit Erase failing_server erase_loaded =
       (failed ''HTTP error! status: 500'' (erase_loaded\<lparr>loading := True, error := None\<rparr>),
        [form Erase (erase_loaded\<lparr>loading := True, error := None\<rparr>) img' m'])"
    using handleSubmit_sends [OF e, of failing_server] by (auto simp: failing_server_def r)
  moreover have "fst (handleGenerate failing_server generate_ready)
      = g_failed ''CUDA out of memory'' (generate_ready\<lparr>isGenerating := True, g_error := None,
          generatedImage := None, g_result := None\<rparr>)"
    by (simp add: handleGenerate_def generate_ready_def trim_examples Let_def failing_server_def
        g_receive_def out_of_memory_def ok_def detail_or_def)
  ultimately show ?thesis by (simp add: failed_def g_failed_def)
qed

text \<open>
  C8: a submit with a required input missing fails before any network call. With no
  image loaded on either page, or with an empty or whitespace-only prompt on the inpaint
  page, \<^verbatim>\<open>handleSubmit\<close> sets the page's missing-input message, sends no request and
  changes nothing else. The erase page does not require its prompt: with an image loaded
  and the canvas ready it sends exactly one request, to the erase endpoint, carrying the
  background prompt as it is, empty or not.
\<close>

theorem handleSubmit_missing_input:
  "(originalImage s = None \<longrightarrow>
      handleSubmit t br s = (s\<lparr>error := Some (missing_message t)\<rparr>, [])) \<and>
   (trim (prompt s) = [] \<longrightarrow>
      handleSubmit Inpaint br s
        = (s\<lparr>error := Some ''Please provide an original image and prompt''\<rparr>, [])) \<and>
   (originalImage s \<noteq> None \<and> canvasInitialized s \<and> canvasRef s = Some c \<and>
    0 < width c \<and> 0 < height c \<longrightarrow>
      (\<exists>req. snd (handleSubmit Erase br s) = [req] \<and>
             url req = ''http://127.0.0.1:8000/erase'' \<and>
             (''background_prompt'', Text (prompt s)) \<in> set (form_fields req)))"
proof (intro conjI impI)
  assume "originalImage s = None"
  then show "handleSubmit t br s = (s\<lparr>error := Some (missing_message t)\<rparr>, [])"
    by (cases t) (simp_all add: handleSubmit_def)
next
  assume "trim (prompt s) = []"
  then show "handleSubmit Inpaint br s
      = (s\<lparr>error := Some ''Please provide an original image and prompt''\<rparr>, [])"
    by (simp add: handleSubmit_def)
next
  assume a: "originalImage s \<noteq> None \<and> canvasInitialized s \<and> canvasRef s = Some c \<and>
    0 < width c \<and> 0 < height c"
  then have "\<not> missing_input Erase s" by simp
  from handleSubmit_sends [OF this, of c br] a obtain img m where
    "snd (handleSubmit Erase br s) = [form Erase (s\<lparr>loading := True, error := None\<rparr>) img m]"
    by auto
  then show "\<exists>req. snd (handleSubmit Erase br s) = [req] \<and>
             url req = ''http://127.0.0.1:8000/erase'' \<and>
             (''background_prompt'', Text (prompt s)) \<in> set (form_fields req)"
    by (simp add: form_def)
qed

theorem handleSubmit_missing_input_witness:
  "handleSubmit Inpaint no_network (initial Inpaint)
     = ((initial Inpaint)\<lparr>error := Some ''Please provide an original image and prompt''\<rparr>, []) \<and>
   handleSubmit Erase no_network (initial Erase)
     = ((initial Erase)\<lparr>error := Some ''Please provide an image''\<rparr>, []) \<and>
   handleSubmit Inpaint no_network (loaded\<lparr>prompt := ''   ''\<rparr>)
     = (loaded\<lparr>prompt := ''   '', error := Some ''Please provide an original image and prompt''\<rparr>, []) \<and>
   prompt erase_loaded = [] \<and>
   (\<exists>req. snd (handleSubmit Erase no_network erase_loaded) = [req] \<and>
          url req = ''http://127.0.0.1:8000/erase'' \<and>
          (''background_prompt'', Text []) \<in> set (form_fields req))"
proof -
  have a: "originalImage (initial Inpaint) = None" "originalImage (initial Erase) = None"
    by (simp_all add: initial_def)
  have b: "trim (prompt (loaded\<lparr>prompt := ''   ''\<rparr>)) = []" by (simp add: trim_examples)
  have c: "originalImage erase_loaded \<noteq> None \<and> canvasInitialized erase_loaded \<and>
      canvasRef erase_loaded = Some (drawImage nearest photo 512 512 whole (blank_canvas 512 512)) \<and>
      0 < width (drawImage nearest photo 512 512 whole (blank_canvas 512 512)) \<and>
      0 < height (drawImage nearest photo 512 512 whole (blank_canvas 512 512))"
    by (simp add: erase_loaded_eq initial_def)
  have p: "prompt erase_loaded = []" by (simp add: erase_loaded_eq initial_def)
  have "handleSubmit Inpaint no_network (initial Inpaint)
     = ((initial Inpaint)\<lparr>error := Some ''Please provide an original image and prompt''\<rparr>, [])"
    using handleSubmit_missing_input [of "initial Inpaint" Inpaint no_network] a(1) by simp
  moreover have "handleSubmit Erase no_network (initial Erase)
     = ((initial Erase)\<lparr>error := Some ''Please provide an image''\<rparr>, [])"
    using handleSubmit_missing_input [of "initial Erase" Erase no_network] a(2) by simp
  moreover have "handleSubmit Inpaint no_network (loaded\<lparr>prompt := ''   ''\<rparr>)
     = (loaded\<lparr>prompt := ''   '', error := Some ''Please provide an original image and prompt''\<rparr>, [])"
    using handleSubmit_missing_input [of "loaded\<lparr>prompt := ''   ''\<rparr>" _ no_network] b by simp
  moreover have "\<exists>req. snd (handleSubmit Erase no_network erase_loaded) = [req] \<and>
          url req = ''http://127.0.0.1:8000/erase'' \<and>
          (''background_prompt'', Text []) \<in> set (form_fields req)"
    using handleSubmit_missing_input [of erase_loaded _ no_network
        "drawImage nearest photo 512 512 whole (blank_canvas 512 512)"] c
    unfolding p by blast
  ultimately show ?thesis using p by blast
qed

section \<open>Fully transparent pixels\<close>

lemma num_ge_1: "b \<noteq> 0 \<Longrightarrow> 1 \<le> num b"
proof -
  assume "b \<noteq> 0"
  then have "unat b \<noteq> 0" by (simp add: unat_eq_0)
  then have "1 \<le> unat b" by simp
  then have "real 1 \<le> real (unat b)" by (rule of_nat_mono)
  then show ?thesis by (simp add: num_def del: of_nat_unat)
qed

text \<open>The brush never leaves a pixel fully transparent.\<close>

lemma stamp_alpha: "alpha (source_over (255, 0, 0) (7 / 10) p) \<noteq> 0"
proof -
  define ab where "ab = num (alpha p) / 255"
  define ao where "ao = 7 / 10 + ab * (1 - 7 / 10)"
  have ab: "0 \<le> ab" "ab \<le> 1" using num_bounds [of "alpha p"] by (simp_all add: ab_def)
  have ao: "ao \<noteq> 0" using ab(1) by (simp add: ao_def)
  have q: "alpha (source_over (255, 0, 0) (7 / 10) p) = clamp8 (round (255 * ao))"
    unfolding source_over_def Let_def ab_def [symmetric] ao_def [symmetric]
    using ao by (simp only: if_False case_prod_conv rgba.sel)
  have "of_int 178 \<le> 255 * ao" "255 * ao \<le> of_int 255" using ab by (simp_all add: ao_def)
  then have "178 \<le> uint (clamp8 (round (255 * ao)))"
    by (intro uint_clamp8_round(1) [where hi = 255]) simp_all
  then have "uint (clamp8 (round (255 * ao))) \<noteq> 0" by simp
  then show ?thesis unfolding q by (simp add: uint_0_iff)
qed

text \<open>Drawing an image pixel leaves the surface pixel transparent black or gives it an
  alpha of at least 1.\<close>

lemma drawn_alpha:
  "source_over cs (num a / 255) dst = transparent \<or> alpha (source_over cs (num a / 255) dst) \<noteq> 0"
proof -
  define as where "as = num a / 255"
  define ab where "ab = num (alpha dst) / 255"
  define ao where "ao = as + ab * (1 - as)"
  obtain r g b where cs: "cs = (r, g, b)" by (cases cs)
  have as: "0 \<le> as" "as \<le> 1" using num_bounds [of a] by (simp_all add: as_def)
  have ab: "0 \<le> ab" "ab \<le> 1" using num_bounds [of "alpha dst"] by (simp_all add: ab_def)
  show ?thesis
  proof (cases "ao = 0")
    case True
    then have "source_over cs as dst = transparent"
      unfolding source_over_def Let_def ab_def [symmetric] ao_def [symmetric] by simp
    then show ?thesis by (simp add: as_def)
  next
    case False
    have q: "alpha (source_over cs as dst) = clamp8 (round (255 * ao))"
      unfolding source_over_def Let_def ab_def [symmetric] ao_def [symmetric] cs
      using False by (simp only: if_False case_prod_conv rgba.sel)
    have p1: "0 \<le> ab * (1 - as)" using ab(1) as(2) by simp
    have p2: "ab * (1 - as) \<le> 1 * (1 - as)" using ab(2) as(2) by (intro mult_right_mono) simp_all
    note prod = p1 p2
    have le: "255 * ao \<le> of_int 255" using prod(2) as by (simp add: ao_def)
    have ge: "of_int 1 \<le> 255 * ao"
    proof (cases "a = 0")
      case True
      then have "as = 0" by (simp add: as_def num_def)
      then have e: "255 * ao = num (alpha dst)" by (simp add: ao_def ab_def)
      then have "alpha dst \<noteq> 0" using False \<open>as = 0\<close> by (auto simp: ao_def ab_def num_def)
      then show ?thesis unfolding e using num_ge_1 by simp
    next
      case nz: False
      have "1 \<le> num a" by (rule num_ge_1 [OF nz])
      then have "1 \<le> 255 * as" by (simp add: as_def)
      also have "\<dots> \<le> 255 * ao" using prod(1) by (simp add: ao_def)
      finally show ?thesis by simp
    qed
    have "1 \<le> uint (clamp8 (round (255 * ao)))"
      using ge le by (intro uint_clamp8_round(1) [where hi = 255]) simp_all
    then have "uint (clamp8 (round (255 * ao))) \<noteq> 0" by simp
    then show ?thesis unfolding as_def [symmetric] q by (simp add: uint_0_iff)
  qed
qed

lemma fill_red_clear:
  assumes "\<forall>i j. alpha (pixel c i j) = 0 \<longrightarrow> pixel c i j = transparent"
  shows "alpha (pixel (fill_red path c) i j) = 0 \<longrightarrow> pixel (fill_red path c) i j = transparent"
  using assms stamp_alpha by simp

lemma drawImage_clear:
  assumes "\<forall>i j. alpha (pixel c i j) = 0 \<longrightarrow> pixel c i j = transparent"
  shows "alpha (pixel (drawImage sc img W H clip c) i j) = 0
         \<longrightarrow> pixel (drawImage sc img W H clip c) i j = transparent"
  using assms drawn_alpha by (simp add: Let_def) blast

lemma clear_is_blank_same:
  "canvasRef s' = canvasRef s \<Longrightarrow> clear_is_blank s \<Longrightarrow> clear_is_blank s'"
  by (simp add: clear_is_blank_def)

lemma draw_clear:
  assumes "clear_is_blank s"
  shows "clear_is_blank (draw e s)"
proof (cases "isDrawing s \<and> \<not> isEraser s \<and> canvasRef s \<noteq> None")
  case True
  then obtain c where c: "canvasRef s = Some c" by blast
  have d: "draw e s = s\<lparr>canvasRef := Some (fill_red (covered (canvas_point c e) (real (brushSize s) / 2)) c)\<rparr>"
    using True c by (intro draw_mark) simp_all
  have "\<forall>i j. alpha (pixel c i j) = 0 \<longrightarrow> pixel c i j = transparent"
    using assms c by (simp add: clear_is_blank_def)
  from fill_red_clear [OF this] show ?thesis
    unfolding d by (simp add: clear_is_blank_def del: fill_red_simps)
next
  case False
  then have "canvasRef (draw e s) = canvasRef s"
    by (auto simp: draw_def Let_def split: option.splits)
  then show ?thesis using assms by (rule clear_is_blank_same)
qed

lemma handle_clear: "clear_is_blank s \<Longrightarrow> clear_is_blank (handle p s)"
proof (cases p)
  case (MouseDown e)
  assume "clear_is_blank s"
  then have "clear_is_blank (draw e s)" by (rule draw_clear)
  then show ?thesis unfolding MouseDown by (simp add: startDrawing_def clear_is_blank_def)
next
  case (MouseMove e)
  assume "clear_is_blank s"
  then show ?thesis unfolding MouseMove by (simp add: draw_clear)
next
  case MouseUp
  assume "clear_is_blank s"
  then show ?thesis unfolding MouseUp by (simp add: stopDrawing_def clear_is_blank_def)
next
  case MouseLeave
  assume "clear_is_blank s"
  then show ?thesis unfolding MouseLeave by (simp add: stopDrawing_def clear_is_blank_def)
qed

lemma run_job_clear: "clear_is_blank s \<Longrightarrow> clear_is_blank (run_job t sc jb s)"
proof (cases jb)
  case (InitJob img)
  assume "clear_is_blank s"
  have "\<forall>i j. alpha (pixel (blank_canvas (target t) (target t)) i j) = 0
      \<longrightarrow> pixel (blank_canvas (target t) (target t)) i j = transparent" by simp
  from drawImage_clear [OF this] show ?thesis
    unfolding InitJob by (cases "canvasRef s") (simp_all add: clear_is_blank_def del: drawImage_simps)
next
  case (EraseJob pt b img)
  assume a: "clear_is_blank s"
  show ?thesis
  proof (cases "canvasRef s")
    case None
    then show ?thesis unfolding EraseJob by (simp add: clear_is_blank_def)
  next
    case (Some c)
    then have "\<forall>i j. alpha (pixel c i j) = 0 \<longrightarrow> pixel c i j = transparent"
      using a by (simp add: clear_is_blank_def)
    from drawImage_clear [OF this] show ?thesis
      unfolding EraseJob using Some by (simp add: clear_is_blank_def del: drawImage_simps)
  qed
next
  case (ClearJob img)
  assume "clear_is_blank s"
  show ?thesis
  proof (cases "canvasRef s")
    case None
    then show ?thesis unfolding ClearJob by (simp add: clear_is_blank_def)
  next
    case (Some c)
    have "\<forall>i j. alpha (pixel (clearRect c) i j) = 0 \<longrightarrow> pixel (clearRect c) i j = transparent"
      by simp
    from drawImage_clear [OF this] show ?thesis
      unfolding ClearJob using Some by (simp add: clear_is_blank_def del: drawImage_simps)
  qed
qed

lemma onload_clear: "clear_is_blank s \<Longrightarrow> clear_is_blank (onload t sc k s)"
proof -
  assume a: "clear_is_blank s"
  have "clear_is_blank (s\<lparr>pending := take k (pending s) @ drop (Suc k) (pending s)\<rparr>)"
    using a by (simp add: clear_is_blank_def)
  then show ?thesis by (simp add: onload_def run_job_clear a)
qed

lemma canvasRef_handleSubmit: "canvasRef (fst (handleSubmit t br s)) = canvasRef s"
  by (simp add: handleSubmit_def Let_def receive_def failed_def
      split: sum.splits option.splits fetch_result.splits body.splits)

lemma act_clear: "clear_is_blank s \<Longrightarrow> clear_is_blank (act t sc a s)"
proof (cases a)
  case (Drop img)
  assume "clear_is_blank s"
  then show ?thesis unfolding Drop
    by (auto simp: onOriginalDrop_def clear_is_blank_def default_canvas_def split: option.splits)
next
  case (Pointer p)
  assume "clear_is_blank s"
  then show ?thesis unfolding Pointer by (simp add: handle_clear)
next
  case (Loaded k)
  assume "clear_is_blank s"
  then show ?thesis unfolding Loaded by (simp add: onload_clear)
next
  case ClearMask
  assume "clear_is_blank s"
  then show ?thesis unfolding ClearMask
    by (auto simp: clearMask_def clear_is_blank_def split: option.splits)
next
  case (SetEraser b)
  assume "clear_is_blank s"
  then show ?thesis unfolding SetEraser by (simp add: setIsEraser_def clear_is_blank_def)
next
  case (SetBrush n)
  assume "clear_is_blank s"
  then show ?thesis unfolding SetBrush by (simp add: setBrushSize_def clear_is_blank_def)
next
  case (SetPrompt p)
  assume "clear_is_blank s"
  then show ?thesis unfolding SetPrompt by (simp add: clear_is_blank_def)
next
  case Preview
  assume "clear_is_blank s"
  then show ?thesis unfolding Preview
    by (auto intro: clear_is_blank_same simp: canvasRef_generateMaskPreview)
next
  case (Submit br)
  assume "clear_is_blank s"
  then show ?thesis unfolding Submit
    by (auto intro: clear_is_blank_same simp: canvasRef_handleSubmit)
qed

lemma run_clear: "clear_is_blank s \<Longrightarrow> clear_is_blank (run t sc as s)"
  by (induction as arbitrary: s) (simp_all add: act_clear)

lemma reached_clear:
  assumes "canvasRef (run t sc as (initial t)) = Some c" "alpha (pixel c i j) = 0"
  shows "pixel c i j = transparent"
proof -
  have "clear_is_blank (initial t)" by (simp add: clear_is_blank_def initial_def)
  then have "clear_is_blank (run t sc as (initial t))" by (rule run_clear)
  then show ?thesis using assms by (simp add: clear_is_blank_def)
qed

lemma veil_loaded_eq:
  "veil_loaded = (initial Erase)\<lparr>originalImage := Some veil, originalImageUrl := Some veil,
      canvasInitialized := True,
      canvasRef := Some (drawImage nearest veil 512 512 whole (blank_canvas 512 512))\<rparr>"
  by (simp add: veil_loaded_def onload_def onOriginalDrop_def initial_def)

lemma veil_pixels:
  "pixel (drawImage nearest veil 512 512 whole (blank_canvas 512 512)) 50 7 = RGBA 255 0 0 255"
  "pixel (drawImage nearest veil 512 512 whole (blank_canvas 512 512)) 150 7 = RGBA 255 0 0 128"
  "pixel (drawImage nearest veil 512 512 whole (blank_canvas 512 512)) 300 7 = RGBA 0 0 0 0"
  by (simp_all add: whole_def nearest_def veil_def source_over_def blend_def clamp8_def num_def
      round_def Let_def transparent_def)




end
